theory Spec2Isabelle
  imports Complex_Main
begin

section \<open>Values exchanged with the Discord client\<close>

text \<open>
  The inbound payload is typed \<open>any\<close> in \<open>manager.ts\<close>: it is whatever \<open>JSON.parse\<close>
  returns. \<open>jsval\<close> is the JavaScript value universe the handler can meet: the JSON
  values plus \<open>undefined\<close>, which a read of an absent property yields. An object is an
  association list; a number is the value of the parsed double.
\<close>

datatype jsval =
    JUndefined
  | JNull
  | JBool bool
  | JNum rat
  | JStr string
  | JArr "jsval list"
  | JObj "(string \<times> jsval) list"

datatype error = SyntaxError | TypeError | Rejected string

text \<open>\<open>v == null\<close>: the bases on which a property read raises \<open>TypeError\<close>.\<close>

fun nullish :: "jsval \<Rightarrow> bool" where
  "nullish JUndefined = True"
| "nullish JNull = True"
| "nullish _ = False"

text \<open>JavaScript's \<open>ToBoolean\<close>, as used by \<open>if (v)\<close>.\<close>

fun truthy :: "jsval \<Rightarrow> bool" where
  "truthy JUndefined = False"
| "truthy JNull = False"
| "truthy (JBool b) = b"
| "truthy (JNum n) = (n \<noteq> 0)"
| "truthy (JStr s) = (s \<noteq> [])"
| "truthy (JArr _) = True"
| "truthy (JObj _) = True"

text \<open>
  \<open>js_prop v k\<close> is the read \<open>v.k\<close> on a base that is not nullish, for the property names the
  handler uses (\<open>evt\<close>, \<open>cmd\<close>, \<open>data\<close>, \<open>code\<close>, \<open>id\<close>, \<open>voice_states\<close>, \<open>user\<close>,
  \<open>user_id\<close>, \<open>channel_id\<close>): none of them is a property of a boxed primitive or of an
  array, so only an object can hold one. \<open>js_get\<close> is the plain read \<open>v.k\<close>, which
  raises on a nullish base, and \<open>js_get_opt\<close> is the optional read \<open>v?.k\<close>.
\<close>

fun js_prop :: "jsval \<Rightarrow> string \<Rightarrow> jsval" where
  "js_prop (JObj kvs) k = (case map_of kvs k of None \<Rightarrow> JUndefined | Some v \<Rightarrow> v)"
| "js_prop _ k = JUndefined"

definition js_get :: "jsval \<Rightarrow> string \<Rightarrow> error + jsval" where
  "js_get v k = (if nullish v then Inl TypeError else Inr (js_prop v k))"

definition js_get_opt :: "jsval \<Rightarrow> string \<Rightarrow> jsval" where
  "js_get_opt v k = (if nullish v then JUndefined else js_prop v k)"

subsection \<open>The protocol vocabulary\<close>

text \<open>
  Modelled from the spec: the enum declarations \<open>RPCCommand\<close> (\<open>./command\<close>) and
  \<open>RPCEvent\<close> (\<open>./event\<close>) are not part of the sources. The members are those
  \<open>manager.ts\<close> names; each is a string enum member whose value is its own name, as
  the spec's example frame \<open>{evt:"VOICE_CHANNEL_SELECT", ...}\<close> shows.
\<close>

datatype RPCCommand =
    AUTHORIZE
  | AUTHENTICATE
  | GET_SELECTED_VOICE_CHANNEL
  | GET_CHANNEL
  | SUBSCRIBE
  | UNSUBSCRIBE

datatype RPCEvent =
    READY
  | SPEAKING_START
  | SPEAKING_STOP
  | VOICE_STATE_CREATE
  | VOICE_STATE_DELETE
  | VOICE_CHANNEL_SELECT

fun RPCCommand_str :: "RPCCommand \<Rightarrow> string" where
  "RPCCommand_str AUTHORIZE = ''AUTHORIZE''"
| "RPCCommand_str AUTHENTICATE = ''AUTHENTICATE''"
| "RPCCommand_str GET_SELECTED_VOICE_CHANNEL = ''GET_SELECTED_VOICE_CHANNEL''"
| "RPCCommand_str GET_CHANNEL = ''GET_CHANNEL''"
| "RPCCommand_str SUBSCRIBE = ''SUBSCRIBE''"
| "RPCCommand_str UNSUBSCRIBE = ''UNSUBSCRIBE''"

fun RPCEvent_str :: "RPCEvent \<Rightarrow> string" where
  "RPCEvent_str READY = ''READY''"
| "RPCEvent_str SPEAKING_START = ''SPEAKING_START''"
| "RPCEvent_str SPEAKING_STOP = ''SPEAKING_STOP''"
| "RPCEvent_str VOICE_STATE_CREATE = ''VOICE_STATE_CREATE''"
| "RPCEvent_str VOICE_STATE_DELETE = ''VOICE_STATE_DELETE''"
| "RPCEvent_str VOICE_CHANNEL_SELECT = ''VOICE_CHANNEL_SELECT''"

text \<open>The tests \<open>payload.evt === RPCEvent.X\<close> and \<open>payload.cmd === RPCCommand.X\<close>.\<close>

definition evt_is :: "jsval \<Rightarrow> RPCEvent \<Rightarrow> bool" where
  "evt_is payload e = (js_prop payload ''evt'' = JStr (RPCEvent_str e))"

definition cmd_is :: "jsval \<Rightarrow> RPCCommand \<Rightarrow> bool" where
  "cmd_is payload c = (js_prop payload ''cmd'' = JStr (RPCCommand_str c))"

definition SUBSCRIBABLE_EVENTS :: "RPCEvent list" where
  "SUBSCRIBABLE_EVENTS =
     [SPEAKING_START, SPEAKING_STOP, VOICE_STATE_CREATE, VOICE_STATE_DELETE, VOICE_STATE_DELETE]"

definition STREAM_KIT_APP_ID :: string where
  "STREAM_KIT_APP_ID = ''207646673902501888''"

definition WEBSOCKET_URL :: string where
  "WEBSOCKET_URL = ''ws://127.0.0.1:6463''"

definition STREAMKIT_URL :: string where
  "STREAMKIT_URL = ''https://streamkit.discord.com''"

section \<open>The session object and its surroundings\<close>

text \<open>\<open>interface DiscordPayload\<close>: every field is optional.\<close>

record DiscordPayload =
  cmd :: "RPCCommand option"
  args :: "jsval option"
  evt :: "RPCEvent option"
  nonce :: "string option"

text \<open>\<open>interface TokenResponse\<close>, the declared type of the body \<open>res.data\<close> of the exchange.\<close>

record TokenResponse =
  access_token :: string

text \<open>
  \<open>class TokenStore\<close>: its \<open>store\<close> field is the global \<open>window.localStorage\<close>, kept in the
  world below, so the object itself holds only the key.
\<close>

record TokenStore =
  key :: string

definition TokenStore_new :: TokenStore where
  "TokenStore_new = \<lparr>key = ''discord_access_token''\<rparr>"

record http_request =
  url :: string
  http_method :: string
  body :: jsval

text \<open>
  The shared store (\<open>../store\<close>) is outside the sources: only the calls the session makes
  on its actions are visible. An action call is recorded as a value; the handle that
  \<open>appStore.getState()\<close> returns carries nothing the session reads.
\<close>

datatype StoreAction =
    is_setUsers: setUsers jsval
  | is_setCurrentChannel: setCurrentChannel jsval
  | is_setMe: setMe jsval
  | is_setTalking: setTalking jsval bool
  | is_removeUser: removeUser jsval
  | is_addUser: addUser jsval

datatype AppStore = AppStore

type_synonym WebSocket = nat

text \<open>\<open>class SocketManager\<close>, with the initial values of its field declarations.\<close>

record SocketManager =
  socket :: "WebSocket option"
  currentChannelId :: jsval
  store :: "AppStore option"
  tokenStore :: "TokenStore option"

definition SocketManager_new :: SocketManager where
  "SocketManager_new = \<lparr>socket = None, currentChannelId = JNull, store = None, tokenStore = None\<rparr>"

text \<open>
  Everything the session does to the outside is appended to one ordered trace: a frame
  written to the socket (the object handed to \<open>JSON.stringify\<close>), an HTTP request, an
  action called on the shared store, a payload written to the console.
\<close>

datatype effect =
    Sent DiscordPayload
  | Fetched http_request
  | StoreCall StoreAction
  | Logged jsval

record world =
  this :: SocketManager
  localStorage :: "string \<rightharpoonup> string"
  uuid_calls :: nat
  trace :: "effect list"

text \<open>
  What the handler calls but does not define: \<open>JSON.parse\<close> (\<open>None\<close> when it raises),
  the HTTP client (a rejection, or the typed response body), the \<open>k\<close>-th value drawn from
  \<open>uuid.v4()\<close>, and \<open>WebSocket.connect\<close>.
\<close>

record env =
  JSON_parse :: "string \<Rightarrow> jsval option"
  fetch :: "http_request \<Rightarrow> error + TokenResponse"
  uuid_v4 :: "nat \<Rightarrow> string"
  WebSocket_connect :: "string \<Rightarrow> (string \<times> string) list \<Rightarrow> error + WebSocket"

text \<open>\<open>type Message\<close> of the websocket plugin: a union tagged by \<open>type\<close>.\<close>

datatype Message =
    Text string
  | Binary "nat list"
  | Ping "nat list"
  | Pong "nat list"
  | Close "(nat \<times> string) option"

fun Message_type :: "Message \<Rightarrow> string" where
  "Message_type (Text _) = ''Text''"
| "Message_type (Binary _) = ''Binary''"
| "Message_type (Ping _) = ''Ping''"
| "Message_type (Pong _) = ''Pong''"
| "Message_type (Close _) = ''Close''"

datatype outcome = Done | Thrown error

type_synonym step = "world \<Rightarrow> outcome \<times> world"

section \<open>Statements and their sequencing\<close>

text \<open>Statements run in order; a raise ends the handler and keeps the effects made so far.\<close>

fun run :: "step list \<Rightarrow> step" where
  "run [] w = (Done, w)"
| "run (s # ss) w = (case s w of (Done, w') \<Rightarrow> run ss w' | (Thrown e, w') \<Rightarrow> (Thrown e, w'))"

definition pure :: "(world \<Rightarrow> world) \<Rightarrow> step" where
  "pure k w = (Done, k w)"

definition emit :: "effect \<Rightarrow> world \<Rightarrow> world" where
  "emit e w = w\<lparr>trace := trace w @ [e]\<rparr>"

text \<open>
  \<open>this.store?.f(arg)\<close>: nothing happens, and the argument is not evaluated, when the
  store is null; otherwise the argument is evaluated, which may raise, and the action called.
\<close>

definition store_call :: "(jsval \<Rightarrow> StoreAction) \<Rightarrow> (error + jsval) \<Rightarrow> step" where
  "store_call f arg w =
     (case store (this w) of
        None \<Rightarrow> (Done, w)
      | Some _ \<Rightarrow> (case arg of Inl e \<Rightarrow> (Thrown e, w) | Inr v \<Rightarrow> (Done, emit (StoreCall (f v)) w)))"

section \<open>TokenStore\<close>

definition accessToken :: "TokenStore \<Rightarrow> world \<Rightarrow> jsval" where
  "accessToken ts w = (case localStorage w (key ts) of None \<Rightarrow> JNull | Some s \<Rightarrow> JStr s)"

definition setAccessToken :: "TokenStore \<Rightarrow> string \<Rightarrow> world \<Rightarrow> world" where
  "setAccessToken ts token w = w\<lparr>localStorage := (localStorage w)(key ts \<mapsto> token)\<rparr>"

section \<open>SocketManager\<close>

definition uuid :: "env \<Rightarrow> world \<Rightarrow> string \<times> world" where
  "uuid E w = (uuid_v4 E (uuid_calls w), w\<lparr>uuid_calls := Suc (uuid_calls w)\<rparr>)"

text \<open>
  \<open>send\<close>: \<open>this.socket?.send(JSON.stringify({...payload, nonce: uuid.v4()}))\<close>. With no
  socket the argument is not evaluated, so no identifier is drawn.
\<close>

definition send :: "env \<Rightarrow> DiscordPayload \<Rightarrow> world \<Rightarrow> world" where
  "send E payload w =
     (case socket (this w) of
        None \<Rightarrow> w
      | Some _ \<Rightarrow> (case uuid E w of (n, w') \<Rightarrow> emit (Sent (payload\<lparr>nonce := Some n\<rparr>)) w'))"

definition authenticate :: "env \<Rightarrow> world \<Rightarrow> world" where
  "authenticate E =
     send E \<lparr>cmd = Some AUTHORIZE,
             args = Some (JObj [(''client_id'', JStr STREAM_KIT_APP_ID),
                                (''scopes'', JArr [JStr ''rpc''])]),
             evt = None, nonce = None\<rparr>"

definition login :: "env \<Rightarrow> jsval \<Rightarrow> world \<Rightarrow> world" where
  "login E token =
     send E \<lparr>cmd = Some AUTHENTICATE,
             args = Some (JObj [(''access_token'', token)]),
             evt = None, nonce = None\<rparr>"

definition requestUserChannel :: "env \<Rightarrow> world \<Rightarrow> world" where
  "requestUserChannel E =
     send E \<lparr>cmd = Some GET_SELECTED_VOICE_CHANNEL, args = None, evt = None, nonce = None\<rparr>"

text \<open>
  \<open>channelEvents\<close>: the payload it builds already holds a \<open>nonce: uuid.v4()\<close>, drawn
  before \<open>send\<close> is entered; \<open>send\<close> then overwrites it with its own.
\<close>

definition channelEvents :: "env \<Rightarrow> RPCCommand \<Rightarrow> jsval \<Rightarrow> world \<Rightarrow> world" where
  "channelEvents E c channelId =
     fold (\<lambda>eventName w.
             case uuid E w of (n, w') \<Rightarrow>
               send E \<lparr>cmd = Some c,
                       args = Some (JObj [(''channel_id'', channelId)]),
                       evt = Some eventName,
                       nonce = Some n\<rparr> w')
          SUBSCRIBABLE_EVENTS"

subsection \<open>The dispatch blocks of \<open>onMessage\<close>, in source order\<close>

text \<open>Lines 107-114.\<close>

definition on_READY :: "env \<Rightarrow> jsval \<Rightarrow> step" where
  "on_READY E payload w =
     (if evt_is payload READY then
        (let acessToken = (case tokenStore (this w) of
                             None \<Rightarrow> JUndefined
                           | Some ts \<Rightarrow> accessToken ts w)
         in if truthy acessToken then (Done, login E acessToken w)
            else (Done, authenticate E w))
      else (Done, w))"

text \<open>
  Lines 117-129. The handler is suspended while the request is in flight; the model runs
  one handler to its end.
\<close>

definition on_AUTHORIZE :: "env \<Rightarrow> jsval \<Rightarrow> step" where
  "on_AUTHORIZE E payload w =
     (if cmd_is payload AUTHORIZE then
        (case js_get (js_prop payload ''data'') ''code'' of
           Inl e \<Rightarrow> (Thrown e, w)
         | Inr code \<Rightarrow>
             (let req = \<lparr>url = STREAMKIT_URL @ ''/overlay/token'',
                         http_method = ''POST'',
                         body = JObj [(''code'', code)]\<rparr>;
                  w1 = emit (Fetched req) w
              in case fetch E req of
                   Inl e \<Rightarrow> (Thrown e, w1)
                 | Inr res \<Rightarrow>
                     (let w2 = (case tokenStore (this w1) of
                                  None \<Rightarrow> w1
                                | Some ts \<Rightarrow> setAccessToken ts (access_token res) w1)
                      in (Done, login E (JStr (access_token res)) w2))))
      else (Done, w))"

text \<open>Lines 132-140.\<close>

definition on_GET_SELECTED_VOICE_CHANNEL :: "env \<Rightarrow> jsval \<Rightarrow> step" where
  "on_GET_SELECTED_VOICE_CHANNEL E payload w =
     (if cmd_is payload GET_SELECTED_VOICE_CHANNEL then
        run [(\<lambda>w. case js_get (js_prop payload ''data'') ''id'' of
                     Inl e \<Rightarrow> (Thrown e, w)
                   | Inr channelId \<Rightarrow> (Done, channelEvents E SUBSCRIBE channelId w)),
             store_call setUsers (js_get (js_prop payload ''data'') ''voice_states''),
             store_call setCurrentChannel (js_get (js_prop payload ''data'') ''id'')] w
      else (Done, w))"

text \<open>Lines 143-154.\<close>

definition on_AUTHENTICATE :: "env \<Rightarrow> jsval \<Rightarrow> step" where
  "on_AUTHENTICATE E payload w =
     (if js_get_opt payload ''cmd'' = JStr (RPCCommand_str AUTHENTICATE) then
        run [pure (requestUserChannel E),
             pure (send E \<lparr>cmd = Some SUBSCRIBE, args = None,
                           evt = Some VOICE_CHANNEL_SELECT, nonce = None\<rparr>),
             store_call setMe (js_get (js_prop payload ''data'') ''user'')] w
      else (Done, w))"

text \<open>Lines 156-162.\<close>

definition on_SPEAKING :: "env \<Rightarrow> jsval \<Rightarrow> step" where
  "on_SPEAKING E payload w =
     (if evt_is payload SPEAKING_START \<or> evt_is payload SPEAKING_STOP then
        (let isSpeaking = \<not> evt_is payload SPEAKING_START
         in store_call (\<lambda>user_id. setTalking user_id (\<not> isSpeaking))
              (js_get (js_prop payload ''data'') ''user_id'') w)
      else (Done, w))"

text \<open>Lines 164-166.\<close>

definition on_VOICE_STATE_DELETE :: "env \<Rightarrow> jsval \<Rightarrow> step" where
  "on_VOICE_STATE_DELETE E payload w =
     (if evt_is payload VOICE_STATE_DELETE then
        store_call removeUser
          (case js_get (js_prop payload ''data'') ''user'' of
             Inl e \<Rightarrow> Inl e
           | Inr user \<Rightarrow> js_get user ''id'') w
      else (Done, w))"

text \<open>Lines 168-170.\<close>

definition on_VOICE_STATE_CREATE :: "env \<Rightarrow> jsval \<Rightarrow> step" where
  "on_VOICE_STATE_CREATE E payload w =
     (if evt_is payload VOICE_STATE_CREATE then
        store_call addUser (Inr (js_prop payload ''data'')) w
      else (Done, w))"

text \<open>Lines 173-175.\<close>

definition on_GET_CHANNEL :: "env \<Rightarrow> jsval \<Rightarrow> step" where
  "on_GET_CHANNEL E payload w =
     (if cmd_is payload GET_CHANNEL then (Done, requestUserChannel E w) else (Done, w))"

text \<open>Lines 178-191.\<close>

definition on_VOICE_CHANNEL_SELECT :: "env \<Rightarrow> jsval \<Rightarrow> step" where
  "on_VOICE_CHANNEL_SELECT E payload w =
     (if evt_is payload VOICE_CHANNEL_SELECT then
        run [pure (requestUserChannel E),
             store_call setCurrentChannel (js_get (js_prop payload ''data'') ''channel_id''),
             pure (\<lambda>w. if truthy (js_get_opt (js_prop payload ''data'') ''channel_id'') then
                         send E \<lparr>cmd = Some GET_CHANNEL,
                                 args = Some (JObj [(''channel_id'',
                                          js_prop (js_prop payload ''data'') ''channel_id'')]),
                                 evt = None, nonce = None\<rparr> w
                       else w)] w
      else (Done, w))"

text \<open>Lines 193-195.\<close>

definition on_other :: "env \<Rightarrow> jsval \<Rightarrow> step" where
  "on_other E payload w =
     (if js_prop payload ''cmd'' \<notin> set [JStr (RPCCommand_str SUBSCRIBE),
                                      JStr (RPCCommand_str AUTHENTICATE)]
      then (Done, emit (Logged payload) w)
      else (Done, w))"

text \<open>
  \<open>onMessage\<close>. The first read of the parsed payload, \<open>payload.evt\<close> on line 107, raises
  \<open>TypeError\<close> when the frame's text is \<open>null\<close>; from there on the payload is not nullish.
\<close>

definition dispatch :: "env \<Rightarrow> jsval \<Rightarrow> step list" where
  "dispatch E payload =
     [on_READY E payload,
      on_AUTHORIZE E payload,
      on_GET_SELECTED_VOICE_CHANNEL E payload,
      on_AUTHENTICATE E payload,
      on_SPEAKING E payload,
      on_VOICE_STATE_DELETE E payload,
      on_VOICE_STATE_CREATE E payload,
      on_GET_CHANNEL E payload,
      on_VOICE_CHANNEL_SELECT E payload,
      on_other E payload]"

definition onMessage :: "env \<Rightarrow> Message \<Rightarrow> step" where
  "onMessage E event w =
     (if Message_type event \<noteq> ''Text'' then (Done, w)
      else case event of
             Text d \<Rightarrow>
               (case JSON_parse E d of
                  None \<Rightarrow> (Thrown SyntaxError, w)
                | Some payload \<Rightarrow>
                    if nullish payload then (Thrown TypeError, w)
                    else run (dispatch E payload) w)
           | _ \<Rightarrow> (Done, w))"

text \<open>\<open>init\<close>, and the world a fresh process starts in.\<close>

definition init :: "env \<Rightarrow> step" where
  "init E w =
     (let w1 = w\<lparr>this := (this w)\<lparr>store := Some AppStore\<rparr>\<rparr>;
          w2 = w1\<lparr>this := (this w1)\<lparr>tokenStore := Some TokenStore_new\<rparr>\<rparr>;
          connectionUrl = WEBSOCKET_URL @ ''/?v=1&client_id='' @ STREAM_KIT_APP_ID
      in case WebSocket_connect E connectionUrl [(''origin'', STREAMKIT_URL)] of
           Inl e \<Rightarrow> (Thrown e, w2)
         | Inr sock \<Rightarrow> (Done, w2\<lparr>this := (this w2)\<lparr>socket := Some sock\<rparr>\<rparr>))"

definition startup :: "(string \<rightharpoonup> string) \<Rightarrow> world" where
  "startup ls = \<lparr>this = SocketManager_new, localStorage = ls, uuid_calls = 0, trace = []\<rparr>"

subsection \<open>The handler as an async function\<close>

text \<open>
  \<open>onMessage\<close> above runs one handler from its first line to its last, with the answer
  of the exchange at hand. The runtime does not: \<open>onMessage\<close> is an \<open>async\<close> function and
  the listener (line 72) does not wait for it. A call runs without interruption up to
  \<open>await fetch\<close> (line 119), where it is suspended with the request in flight, and runs
  from there to its end once the exchange has settled; frames that arrive in between are
  handled in between. A handler whose payload is not an AUTHORIZE response meets no
  \<open>await\<close> and runs to its end at once. \<open>onMessage_start\<close> is the part up to the
  suspension, \<open>onMessage_resume\<close> the part after it, in the world as it is then.
\<close>

datatype status = Settled outcome | Suspended jsval http_request

definition after_exchange :: "env \<Rightarrow> jsval \<Rightarrow> step list" where
  "after_exchange E payload =
     [on_GET_SELECTED_VOICE_CHANNEL E payload,
      on_AUTHENTICATE E payload,
      on_SPEAKING E payload,
      on_VOICE_STATE_DELETE E payload,
      on_VOICE_STATE_CREATE E payload,
      on_GET_CHANNEL E payload,
      on_VOICE_CHANNEL_SELECT E payload,
      on_other E payload]"

definition onMessage_start :: "env \<Rightarrow> Message \<Rightarrow> world \<Rightarrow> status \<times> world" where
  "onMessage_start E event w =
     (if Message_type event \<noteq> ''Text'' then (Settled Done, w)
      else case event of
             Text d \<Rightarrow>
               (case JSON_parse E d of
                  None \<Rightarrow> (Settled (Thrown SyntaxError), w)
                | Some payload \<Rightarrow>
                    if nullish payload then (Settled (Thrown TypeError), w)
                    else
                      (case on_READY E payload w of
                         (Thrown e, w1) \<Rightarrow> (Settled (Thrown e), w1)
                       | (Done, w1) \<Rightarrow>
                           if cmd_is payload AUTHORIZE then
                             (case js_get (js_prop payload ''data'') ''code'' of
                                Inl e \<Rightarrow> (Settled (Thrown e), w1)
                              | Inr code \<Rightarrow>
                                  (let req = \<lparr>url = STREAMKIT_URL @ ''/overlay/token'',
                                              http_method = ''POST'',
                                              body = JObj [(''code'', code)]\<rparr>
                                   in (Suspended payload req, emit (Fetched req) w1)))
                           else
                             (case run (after_exchange E payload) w1 of
                                (r, w2) \<Rightarrow> (Settled r, w2))))
           | _ \<Rightarrow> (Settled Done, w))"

definition onMessage_resume :: "env \<Rightarrow> jsval \<Rightarrow> error + TokenResponse \<Rightarrow> step" where
  "onMessage_resume E payload answer w =
     (case answer of
        Inl e \<Rightarrow> (Thrown e, w)
      | Inr res \<Rightarrow>
          (let w2 = (case tokenStore (this w) of
                       None \<Rightarrow> w
                     | Some ts \<Rightarrow> setAccessToken ts (access_token res) w)
           in run (after_exchange E payload) (login E (JStr (access_token res)) w2)))"

text \<open>
  A session: once \<open>init\<close> has connected and registered the listener, what reaches the
  process is a sequence of arrivals, each an inbound frame or the answer to one of the
  exchanges in flight (the \<open>i\<close>-th of those still pending, with what the network
  answered). The state between arrivals is the world and the suspended handlers.
\<close>

datatype arrival = Frame Message | Answer nat "error + TokenResponse"

fun arrive :: "env \<Rightarrow> arrival \<Rightarrow> world \<times> (jsval \<times> http_request) list
                \<Rightarrow> world \<times> (jsval \<times> http_request) list" where
  "arrive E (Frame m) (w, pending) =
     (case onMessage_start E m w of
        (Settled r, w') \<Rightarrow> (w', pending)
      | (Suspended payload req, w') \<Rightarrow> (w', pending @ [(payload, req)]))"
| "arrive E (Answer i answer) (w, pending) =
     (if i < length pending
      then (snd (onMessage_resume E (fst (pending ! i)) answer w),
            take i pending @ drop (Suc i) pending)
      else (w, pending))"

definition session :: "env \<Rightarrow> (string \<rightharpoonup> string) \<Rightarrow> arrival list \<Rightarrow> world" where
  "session E ls arrivals =
     (case init E (startup ls) of
        (Done, w) \<Rightarrow> fst (fold (arrive E) arrivals (w, []))
      | (Thrown e, w) \<Rightarrow> w)"

section \<open>Reading the trace\<close>

text \<open>The frames written to the socket, the store actions called, the requests made and
  the payloads logged, each in the order of the trace.\<close>

fun sent :: "effect list \<Rightarrow> DiscordPayload list" where
  "sent [] = []"
| "sent (Sent p # es) = p # sent es"
| "sent (_ # es) = sent es"

fun store_calls :: "effect list \<Rightarrow> StoreAction list" where
  "store_calls [] = []"
| "store_calls (StoreCall a # es) = a # store_calls es"
| "store_calls (_ # es) = store_calls es"

fun fetched :: "effect list \<Rightarrow> http_request list" where
  "fetched [] = []"
| "fetched (Fetched r # es) = r # fetched es"
| "fetched (_ # es) = fetched es"

fun logged :: "effect list \<Rightarrow> jsval list" where
  "logged [] = []"
| "logged (Logged v # es) = v # logged es"
| "logged (_ # es) = logged es"

text \<open>The frames sent with one of the commands \<open>cs\<close>, in order, their nonces left out.\<close>

definition sent_commands :: "RPCCommand list \<Rightarrow> effect list \<Rightarrow> DiscordPayload list" where
  "sent_commands cs t =
     map (\<lambda>p. p\<lparr>nonce := None\<rparr>) (filter (\<lambda>p. cmd p \<in> Some ` set cs) (sent t))"

text \<open>
  Every frame on the trace carries a nonce drawn from \<open>uuid.v4()\<close>, each from a draw of
  its own, and all draws counted so far.
\<close>

definition nonces_fresh :: "env \<Rightarrow> world \<Rightarrow> bool" where
  "nonces_fresh E w =
     (\<exists>ks. map nonce (sent (trace w)) = map (\<lambda>k. Some (uuid_v4 E k)) ks
           \<and> distinct ks \<and> (\<forall>k \<in> set ks. k < uuid_calls w))"

section \<open>A sample environment\<close>

text \<open>
  Concrete frames as Discord sends them, with the values \<open>JSON.parse\<close> gives for them,
  an exchange that answers with a token, identifiers that never repeat and a connection
  that stands. The runs on concrete inputs below use it.
\<close>

definition sample_parse :: "string \<Rightarrow> jsval option" where
  "sample_parse = map_of
     [(''{\"cmd\":\"DISPATCH\",\"evt\":\"READY\"}'',
         JObj [(''cmd'', JStr ''DISPATCH''), (''evt'', JStr ''READY'')]),
      (''{\"cmd\":\"AUTHORIZE\",\"evt\":\"READY\",\"data\":{\"code\":\"abc\"}}'',
         JObj [(''cmd'', JStr ''AUTHORIZE''), (''evt'', JStr ''READY''),
               (''data'', JObj [(''code'', JStr ''abc'')])]),
      (''{\"cmd\":\"AUTHORIZE\",\"data\":{\"code\":\"abc\"}}'',
         JObj [(''cmd'', JStr ''AUTHORIZE''),
               (''data'', JObj [(''code'', JStr ''abc'')])]),
      (''{\"cmd\":\"GET_SELECTED_VOICE_CHANNEL\",\"data\":{\"id\":\"7\",\"voice_states\":[]}}'',
         JObj [(''cmd'', JStr ''GET_SELECTED_VOICE_CHANNEL''),
               (''data'', JObj [(''id'', JStr ''7''), (''voice_states'', JArr [])])]),
      (''{\"cmd\":\"AUTHENTICATE\",\"data\":{\"user\":{\"id\":\"1\"}}}'',
         JObj [(''cmd'', JStr ''AUTHENTICATE''),
               (''data'', JObj [(''user'', JObj [(''id'', JStr ''1'')])])]),
      (''{\"cmd\":\"AUTHENTICATE\",\"evt\":\"VOICE_CHANNEL_SELECT\",\"data\":{\"user\":{\"id\":\"1\"}}}'',
         JObj [(''cmd'', JStr ''AUTHENTICATE''), (''evt'', JStr ''VOICE_CHANNEL_SELECT''),
               (''data'', JObj [(''user'', JObj [(''id'', JStr ''1'')])])]),
      (''{\"cmd\":\"DISPATCH\",\"evt\":\"SPEAKING_START\",\"data\":{\"user_id\":\"7\"}}'',
         JObj [(''cmd'', JStr ''DISPATCH''), (''evt'', JStr ''SPEAKING_START''),
               (''data'', JObj [(''user_id'', JStr ''7'')])]),
      (''{\"cmd\":\"DISPATCH\",\"evt\":\"SPEAKING_STOP\",\"data\":{\"user_id\":\"7\"}}'',
         JObj [(''cmd'', JStr ''DISPATCH''), (''evt'', JStr ''SPEAKING_STOP''),
               (''data'', JObj [(''user_id'', JStr ''7'')])]),
      (''{\"cmd\":\"AUTHORIZE\",\"evt\":\"SPEAKING_START\",\"data\":{\"user_id\":\"7\"}}'',
         JObj [(''cmd'', JStr ''AUTHORIZE''), (''evt'', JStr ''SPEAKING_START''),
               (''data'', JObj [(''user_id'', JStr ''7'')])]),
      (''{\"evt\":\"VOICE_CHANNEL_SELECT\",\"data\":{\"channel_id\":\"42\"}}'',
         JObj [(''evt'', JStr ''VOICE_CHANNEL_SELECT''),
               (''data'', JObj [(''channel_id'', JStr ''42'')])]),
      (''{\"evt\":\"VOICE_CHANNEL_SELECT\",\"data\":{\"channel_id\":null}}'',
         JObj [(''evt'', JStr ''VOICE_CHANNEL_SELECT''),
               (''data'', JObj [(''channel_id'', JNull)])]),
      (''{\"cmd\":\"GET_CHANNEL\",\"evt\":\"VOICE_CHANNEL_SELECT\",\"data\":{\"channel_id\":\"42\"}}'',
         JObj [(''cmd'', JStr ''GET_CHANNEL''), (''evt'', JStr ''VOICE_CHANNEL_SELECT''),
               (''data'', JObj [(''channel_id'', JStr ''42'')])])]"

definition sample_uuid :: "nat \<Rightarrow> string" where
  "sample_uuid k = replicate (Suc k) CHR ''u''"

definition sample_env :: env where
  "sample_env =
     \<lparr>JSON_parse = sample_parse,
      fetch = (\<lambda>req. Inr \<lparr>access_token = ''fresh''\<rparr>),
      uuid_v4 = sample_uuid,
      WebSocket_connect = (\<lambda>connectionUrl headers. Inr 1)\<rparr>"

text \<open>The world once \<open>init\<close> has run with a connection, over a given local storage.\<close>

definition connected :: "(string \<rightharpoonup> string) \<Rightarrow> world" where
  "connected ls =
     \<lparr>this = \<lparr>socket = Some 1, currentChannelId = JNull, store = Some AppStore,
              tokenStore = Some TokenStore_new\<rparr>,
      localStorage = ls, uuid_calls = 0, trace = []\<rparr>"

section \<open>Basic facts\<close>

lemma sent_append [simp]: "sent (xs @ ys) = sent xs @ sent ys"
  by (induction xs rule: sent.induct) simp_all

lemma store_calls_append [simp]: "store_calls (xs @ ys) = store_calls xs @ store_calls ys"
  by (induction xs rule: store_calls.induct) simp_all

lemma fetched_append [simp]: "fetched (xs @ ys) = fetched xs @ fetched ys"
  by (induction xs rule: fetched.induct) simp_all

lemma logged_append [simp]: "logged (xs @ ys) = logged xs @ logged ys"
  by (induction xs rule: logged.induct) simp_all

lemma sent_commands_append [simp]:
  "sent_commands cs (xs @ ys) = sent_commands cs xs @ sent_commands cs ys"
  by (simp add: sent_commands_def)

lemma emit_simps [simp]:
  "trace (emit e w) = trace w @ [e]"
  "this (emit e w) = this w"
  "localStorage (emit e w) = localStorage w"
  "uuid_calls (emit e w) = uuid_calls w"
  by (simp_all add: emit_def)

lemma send_this [simp]: "this (send E p w) = this w"
  by (simp add: send_def uuid_def split: option.splits)

lemma send_localStorage [simp]: "localStorage (send E p w) = localStorage w"
  by (simp add: send_def uuid_def split: option.splits)

lemma send_trace:
  "trace (send E p w) =
     trace w @ (case socket (this w) of None \<Rightarrow> []
                | Some _ \<Rightarrow> [Sent (p\<lparr>nonce := Some (uuid_v4 E (uuid_calls w))\<rparr>)])"
  by (simp add: send_def uuid_def split: option.splits)

lemma send_uuid_calls:
  "uuid_calls (send E p w) = (case socket (this w) of None \<Rightarrow> uuid_calls w | Some _ \<Rightarrow> Suc (uuid_calls w))"
  by (simp add: send_def uuid_def split: option.splits)

lemma channelEvents_this [simp]: "this (channelEvents E c ch w) = this w"
  by (simp add: channelEvents_def SUBSCRIBABLE_EVENTS_def uuid_def)

lemma channelEvents_localStorage [simp]: "localStorage (channelEvents E c ch w) = localStorage w"
  by (simp add: channelEvents_def SUBSCRIBABLE_EVENTS_def uuid_def)

lemma channelEvents_trace:
  "trace (channelEvents E c ch w) =
     trace w @
     (case socket (this w) of
        None \<Rightarrow> []
      | Some _ \<Rightarrow>
          map (\<lambda>(k, e). Sent \<lparr>cmd = Some c, args = Some (JObj [(''channel_id'', ch)]),
                               evt = Some e, nonce = Some (uuid_v4 E (uuid_calls w + k))\<rparr>)
            [(1, SPEAKING_START), (3, SPEAKING_STOP), (5, VOICE_STATE_CREATE),
             (7, VOICE_STATE_DELETE), (9, VOICE_STATE_DELETE)])"
  by (simp add: channelEvents_def SUBSCRIBABLE_EVENTS_def uuid_def send_trace send_uuid_calls
        eval_nat_numeral split: option.splits)

lemma channelEvents_uuid_calls:
  "uuid_calls (channelEvents E c ch w) =
     uuid_calls w + (case socket (this w) of None \<Rightarrow> 5 | Some _ \<Rightarrow> 10)"
  by (simp add: channelEvents_def SUBSCRIBABLE_EVENTS_def uuid_def send_uuid_calls
        split: option.splits)

lemma setAccessToken_simps [simp]:
  "trace (setAccessToken ts t w) = trace w"
  "this (setAccessToken ts t w) = this w"
  "uuid_calls (setAccessToken ts t w) = uuid_calls w"
  "localStorage (setAccessToken ts t w) = (localStorage w)(key ts \<mapsto> t)"
  by (simp_all add: setAccessToken_def)

lemma run_preserves:
  assumes "\<And>s w. s \<in> set ss \<Longrightarrow> f (snd (s w)) = f w"
  shows "f (snd (run ss w)) = f w"
  using assms
proof (induction ss arbitrary: w)
  case Nil
  then show ?case by simp
next
  case (Cons s ss)
  obtain r w' where sw: "s w = (r, w')" by (cases "s w")
  have "f w' = f w" using Cons.prems [of s w] sw by simp
  moreover have "f (snd (run ss w')) = f w'" using Cons by simp
  ultimately show ?case using sw by (cases r) simp_all
qed

lemma store_call_this [simp]: "this (snd (store_call f a w)) = this w"
  by (simp add: store_call_def split: option.splits sum.splits)

lemma on_READY_this: "this (snd (on_READY E p w)) = this w"
  by (simp add: on_READY_def login_def authenticate_def Let_def)

lemma on_AUTHORIZE_this: "this (snd (on_AUTHORIZE E p w)) = this w"
  by (simp add: on_AUTHORIZE_def login_def setAccessToken_def Let_def split: sum.splits option.splits)

lemma on_GET_SELECTED_VOICE_CHANNEL_this: "this (snd (on_GET_SELECTED_VOICE_CHANNEL E p w)) = this w"
  by (simp add: on_GET_SELECTED_VOICE_CHANNEL_def store_call_def split: sum.splits option.splits)

lemma on_AUTHENTICATE_this: "this (snd (on_AUTHENTICATE E p w)) = this w"
  by (simp add: on_AUTHENTICATE_def pure_def requestUserChannel_def store_call_def split: sum.splits option.splits)

lemma on_SPEAKING_this: "this (snd (on_SPEAKING E p w)) = this w"
  by (simp add: on_SPEAKING_def Let_def)

lemma on_VOICE_STATE_DELETE_this: "this (snd (on_VOICE_STATE_DELETE E p w)) = this w"
  by (simp add: on_VOICE_STATE_DELETE_def)

lemma on_VOICE_STATE_CREATE_this: "this (snd (on_VOICE_STATE_CREATE E p w)) = this w"
  by (simp add: on_VOICE_STATE_CREATE_def)

lemma on_GET_CHANNEL_this: "this (snd (on_GET_CHANNEL E p w)) = this w"
  by (simp add: on_GET_CHANNEL_def requestUserChannel_def)

lemma on_VOICE_CHANNEL_SELECT_this: "this (snd (on_VOICE_CHANNEL_SELECT E p w)) = this w"
  by (simp add: on_VOICE_CHANNEL_SELECT_def pure_def requestUserChannel_def store_call_def split: sum.splits option.splits)

lemma on_other_this: "this (snd (on_other E p w)) = this w"
  by (simp add: on_other_def)

lemmas dispatch_this = on_READY_this on_AUTHORIZE_this on_GET_SELECTED_VOICE_CHANNEL_this
  on_AUTHENTICATE_this on_SPEAKING_this on_VOICE_STATE_DELETE_this on_VOICE_STATE_CREATE_this
  on_GET_CHANNEL_this on_VOICE_CHANNEL_SELECT_this on_other_this

lemma onMessage_this: "this (snd (onMessage E m w)) = this w"
proof (cases m)
  case (Text d)
  show ?thesis
  proof (cases "JSON_parse E d")
    case None
    then show ?thesis using Text by (simp add: onMessage_def)
  next
    case (Some payload)
    have "this (snd (run (dispatch E payload) w)) = this w"
      by (rule run_preserves) (auto simp: dispatch_def dispatch_this)
    then show ?thesis using Text Some by (simp add: onMessage_def)
  qed
qed (simp_all add: onMessage_def)

lemma init_attaches:
  "init E w = (Done, w') \<Longrightarrow>
   socket (this w') \<noteq> None \<and> store (this w') = Some AppStore
   \<and> tokenStore (this w') = Some TokenStore_new"
  by (auto simp: init_def Let_def split: sum.splits)

lemma init_connected: "init sample_env (startup ls) = (Done, connected ls)"
  by (simp add: init_def startup_def connected_def sample_env_def SocketManager_new_def Let_def)

lemma evt_is_not_nullish: "evt_is p e \<Longrightarrow> \<not> nullish p"
  by (cases p) (simp_all add: evt_is_def)

lemma cmd_is_not_nullish: "cmd_is p c \<Longrightarrow> \<not> nullish p"
  by (cases p) (simp_all add: cmd_is_def)

lemma sent_commands_simps [simp]:
  "sent_commands cs [] = []"
  "sent_commands cs (Sent p # t) =
     (if cmd p \<in> Some ` set cs then [p\<lparr>nonce := None\<rparr>] else []) @ sent_commands cs t"
  "sent_commands cs (StoreCall a # t) = sent_commands cs t"
  "sent_commands cs (Fetched r # t) = sent_commands cs t"
  "sent_commands cs (Logged v # t) = sent_commands cs t"
  by (simp_all add: sent_commands_def)

lemma run_Cons_Done: "fst (s w) = Done \<Longrightarrow> run (s # ss) w = run ss (snd (s w))"
  by (cases "s w") simp

lemma on_READY_Done: "fst (on_READY E p w) = Done"
  by (simp add: on_READY_def Let_def)

lemma onMessage_Text:
  "JSON_parse E d = Some payload \<Longrightarrow> \<not> nullish payload \<Longrightarrow>
   onMessage E (Text d) w = run (dispatch E payload) w"
  by (simp add: onMessage_def)

lemmas block_defs = on_READY_def on_AUTHORIZE_def on_GET_SELECTED_VOICE_CHANNEL_def
  on_AUTHENTICATE_def on_SPEAKING_def on_VOICE_STATE_DELETE_def on_VOICE_STATE_CREATE_def
  on_GET_CHANNEL_def on_VOICE_CHANNEL_SELECT_def on_other_def

lemmas call_defs = login_def authenticate_def requestUserChannel_def pure_def store_call_def
  accessToken_def channelEvents_trace

lemma run_appends:
  assumes step: "\<And>s w. s \<in> set ss \<Longrightarrow> \<exists>new. trace (snd (s w)) = trace w @ new \<and> Q new"
    and nil: "Q []"
    and app: "\<And>a b. Q a \<Longrightarrow> Q b \<Longrightarrow> Q (a @ b)"
  shows "\<exists>new. trace (snd (run ss w)) = trace w @ new \<and> Q new"
  using step
proof (induction ss arbitrary: w)
  case Nil
  then show ?case using nil by simp
next
  case (Cons s ss)
  obtain r w' where sw: "s w = (r, w')" by (cases "s w")
  obtain a where a: "trace w' = trace w @ a" "Q a"
    using Cons.prems [of s w] sw by auto
  show ?case
  proof (cases r)
    case Done
    obtain b where b: "trace (snd (run ss w')) = trace w' @ b" "Q b"
      using Cons.IH [of w'] Cons.prems by auto
    have "trace (snd (run (s # ss) w)) = trace w @ (a @ b)"
      using sw Done a b by simp
    then show ?thesis using app [OF a(2) b(2)] by blast
  next
    case (Thrown e)
    then show ?thesis using sw a by auto
  qed
qed

lemma on_READY_appends:
  "\<exists>pre. trace (snd (on_READY E p w)) = trace w @ pre \<and> fetched pre = []
           \<and> store_calls pre = [] \<and> sent_commands [SUBSCRIBE] pre = []"
  by (simp add: on_READY_def Let_def login_def authenticate_def send_trace split: option.splits)

lemma on_READY_localStorage: "localStorage (snd (on_READY E p w)) = localStorage w"
  by (simp add: on_READY_def Let_def login_def authenticate_def)

lemma run_around:
  assumes pre: "\<And>s w. s \<in> set pre \<Longrightarrow> fst (s w) = Done \<and> f (snd (s w)) = f w"
    and mid: "\<And>w'. f w' = f w \<Longrightarrow> fst (s w') = Done \<and> f (snd (s w')) = v"
    and post: "\<And>s w. s \<in> set post \<Longrightarrow> f (snd (s w)) = f w"
  shows "f (snd (run (pre @ s # post) w)) = v"
  using pre mid
proof (induction pre arbitrary: w)
  case Nil
  have d: "fst (s w) = Done" and v: "f (snd (s w)) = v" using Nil(2) [of w] by simp_all
  have "run (s # post) w = run post (snd (s w))" using d by (rule run_Cons_Done)
  moreover have "f (snd (run post (snd (s w)))) = f (snd (s w))"
    using post by (rule run_preserves)
  ultimately show ?case using v by simp
next
  case (Cons a pre)
  have d: "fst (a w) = Done" and fa: "f (snd (a w)) = f w" using Cons.prems(1) [of a w] by simp_all
  have "run ((a # pre) @ s # post) w = run (pre @ s # post) (snd (a w))"
    using run_Cons_Done [of a w "pre @ s # post", OF d] by simp
  moreover have "f (snd (run (pre @ s # post) (snd (a w)))) = v"
    using Cons.prems fa by (intro Cons.IH) auto
  ultimately show ?case by simp
qed

lemma run_append:
  "run (xs @ ys) w =
     (case run xs w of (Done, w') \<Rightarrow> run ys w' | (Thrown e, w') \<Rightarrow> (Thrown e, w'))"
proof (induction xs arbitrary: w)
  case Nil
  then show ?case by simp
next
  case (Cons s xs)
  obtain r w' where sw: "s w = (r, w')" by (cases "s w")
  show ?case using sw Cons by (cases r) simp_all
qed

lemma run_around_inv:
  assumes pre: "\<And>s w. s \<in> set pre \<Longrightarrow> fst (s w) = Done \<and> I (snd (s w)) = I w"
    and mid: "\<And>w'. I w' = I w \<Longrightarrow> fst (s w') = Done \<and> g (snd (s w')) = v"
    and post: "\<And>s w. s \<in> set post \<Longrightarrow> g (snd (s w)) = g w"
  shows "g (snd (run (pre @ s # post) w)) = v"
  using pre mid
proof (induction pre arbitrary: w)
  case Nil
  have d: "fst (s w) = Done" and v: "g (snd (s w)) = v" using Nil(2) [of w] by simp_all
  have "run (s # post) w = run post (snd (s w))" using d by (rule run_Cons_Done)
  moreover have "g (snd (run post (snd (s w)))) = g (snd (s w))"
    using post by (rule run_preserves)
  ultimately show ?case using v by simp
next
  case (Cons a pre)
  have d: "fst (a w) = Done" and fa: "I (snd (a w)) = I w" using Cons.prems(1) [of a w] by simp_all
  have "run ((a # pre) @ s # post) w = run (pre @ s # post) (snd (a w))"
    using run_Cons_Done [of a w "pre @ s # post", OF d] by simp
  moreover have "g (snd (run (pre @ s # post) (snd (a w)))) = v"
    using Cons.prems fa by (intro Cons.IH) auto
  ultimately show ?case by simp
qed

lemma truthy_js_prop_not_nullish: "truthy (js_prop v k) \<Longrightarrow> \<not> nullish v"
  by (cases v) simp_all

lemmas run_defs = onMessage_def dispatch_def block_defs call_defs
  send_trace send_uuid_calls channelEvents_uuid_calls
  js_get_def js_get_opt_def evt_is_def cmd_is_def Let_def
  sample_env_def sample_parse_def sample_uuid_def connected_def TokenStore_new_def
  STREAM_KIT_APP_ID_def STREAMKIT_URL_def

lemma run_invariant:
  assumes "\<And>s w. s \<in> set ss \<Longrightarrow> I w \<Longrightarrow> I (snd (s w))" and "I w"
  shows "I (snd (run ss w))"
  using assms
proof (induction ss arbitrary: w)
  case Nil
  then show ?case by simp
next
  case (Cons s ss)
  obtain r w' where sw: "s w = (r, w')" by (cases "s w")
  have i: "I w'" using Cons.prems(1) [of s w] Cons.prems(2) sw by simp
  show ?case
  proof (cases r)
    case Done
    have "I (snd (run ss w'))" using Cons.IH [of w'] Cons.prems(1) i by simp
    then show ?thesis using sw Done by simp
  next
    case (Thrown e)
    then show ?thesis using sw i by simp
  qed
qed

lemma nonces_fresh_draw: "nonces_fresh E w \<Longrightarrow> nonces_fresh E (snd (uuid E w))"
  unfolding nonces_fresh_def uuid_def by (auto intro: less_SucI)

lemma nonces_fresh_send: "nonces_fresh E w \<Longrightarrow> nonces_fresh E (send E p w)"
proof (cases "socket (this w)")
  case None
  then show "nonces_fresh E w \<Longrightarrow> nonces_fresh E (send E p w)" by (simp add: send_def)
next
  case (Some sock)
  assume "nonces_fresh E w"
  then obtain ks where ks: "map nonce (sent (trace w)) = map (\<lambda>k. Some (uuid_v4 E k)) ks"
      "distinct ks" "\<forall>k \<in> set ks. k < uuid_calls w"
    unfolding nonces_fresh_def by blast
  have "map nonce (sent (trace (send E p w))) =
      map (\<lambda>k. Some (uuid_v4 E k)) (ks @ [uuid_calls w])"
    using Some ks(1) by (simp add: send_trace)
  moreover have "distinct (ks @ [uuid_calls w])" using ks(2,3) by auto
  moreover have "\<forall>k \<in> set (ks @ [uuid_calls w]). k < uuid_calls (send E p w)"
    using Some ks(3) by (auto simp: send_uuid_calls intro: less_SucI)
  ultimately show "nonces_fresh E (send E p w)"
    unfolding nonces_fresh_def by blast
qed

lemma nonces_fresh_emit:
  "nonces_fresh E w \<Longrightarrow> nonces_fresh E (emit (StoreCall a) w)"
  "nonces_fresh E w \<Longrightarrow> nonces_fresh E (emit (Fetched r) w)"
  "nonces_fresh E w \<Longrightarrow> nonces_fresh E (emit (Logged v) w)"
  by (simp_all add: nonces_fresh_def)

lemma nonces_fresh_setAccessToken:
  "nonces_fresh E w \<Longrightarrow> nonces_fresh E (setAccessToken ts t w)"
  by (simp add: nonces_fresh_def setAccessToken_def)

lemma nonces_fresh_channelEvents:
  "nonces_fresh E w \<Longrightarrow> nonces_fresh E (channelEvents E c ch w)"
proof -
  have "nonces_fresh E w \<Longrightarrow>
      nonces_fresh E (fold (\<lambda>eventName w.
             case uuid E w of (n, w') \<Rightarrow>
               send E \<lparr>cmd = Some c,
                       args = Some (JObj [(''channel_id'', ch)]),
                       evt = Some eventName,
                       nonce = Some n\<rparr> w') es w)" for es
  proof (induction es arbitrary: w)
    case Nil
    then show ?case by simp
  next
    case (Cons e es)
    obtain n w' where u: "uuid E w = (n, w')" by (cases "uuid E w")
    have "nonces_fresh E w'" using nonces_fresh_draw [OF Cons.prems] u by simp
    then have "nonces_fresh E (send E \<lparr>cmd = Some c,
                       args = Some (JObj [(''channel_id'', ch)]),
                       evt = Some e, nonce = Some n\<rparr> w')"
      by (rule nonces_fresh_send)
    then show ?case using Cons.IH u by simp
  qed
  then show "nonces_fresh E w \<Longrightarrow> nonces_fresh E (channelEvents E c ch w)"
    by (simp add: channelEvents_def)
qed

lemmas nonces_fresh_intros = nonces_fresh_send nonces_fresh_emit nonces_fresh_setAccessToken
  nonces_fresh_channelEvents

lemma nonces_fresh_dispatch:
  assumes "s \<in> set (dispatch E payload)" and "nonces_fresh E w"
  shows "nonces_fresh E (snd (s w))"
proof -
  have "nonces_fresh E (snd (on_READY E payload w))"
    using assms(2)
    by (auto simp: on_READY_def login_def authenticate_def Let_def intro!: nonces_fresh_intros)
  moreover have "nonces_fresh E (snd (on_AUTHORIZE E payload w))"
    using assms(2)
    by (auto simp: on_AUTHORIZE_def login_def Let_def intro!: nonces_fresh_intros
          split: sum.splits option.splits)
  moreover have "nonces_fresh E (snd (on_GET_SELECTED_VOICE_CHANNEL E payload w))"
    using assms(2)
    by (auto simp: on_GET_SELECTED_VOICE_CHANNEL_def store_call_def
          intro!: nonces_fresh_intros split: sum.splits option.splits)
  moreover have "nonces_fresh E (snd (on_AUTHENTICATE E payload w))"
    using assms(2)
    by (auto simp: on_AUTHENTICATE_def requestUserChannel_def pure_def store_call_def
          intro!: nonces_fresh_intros split: sum.splits option.splits)
  moreover have "nonces_fresh E (snd (on_VOICE_CHANNEL_SELECT E payload w))"
    using assms(2)
    by (auto simp: on_VOICE_CHANNEL_SELECT_def requestUserChannel_def pure_def store_call_def
          intro!: nonces_fresh_intros split: sum.splits option.splits)
  moreover have "nonces_fresh E (snd (on_SPEAKING E payload w))"
    "nonces_fresh E (snd (on_VOICE_STATE_DELETE E payload w))"
    "nonces_fresh E (snd (on_VOICE_STATE_CREATE E payload w))"
    "nonces_fresh E (snd (on_GET_CHANNEL E payload w))"
    "nonces_fresh E (snd (on_other E payload w))"
    using assms(2)
    by (auto simp: on_SPEAKING_def on_VOICE_STATE_DELETE_def on_VOICE_STATE_CREATE_def
          on_GET_CHANNEL_def on_other_def requestUserChannel_def store_call_def Let_def
          intro!: nonces_fresh_intros split: sum.splits option.splits)
  ultimately show ?thesis using assms(1) by (auto simp: dispatch_def)
qed

lemma nonces_fresh_onMessage:
  assumes "nonces_fresh E w"
  shows "nonces_fresh E (snd (onMessage E m w))"
proof (cases m)
  case (Text d)
  show ?thesis
  proof (cases "JSON_parse E d")
    case None
    then show ?thesis using Text assms by (simp add: onMessage_def)
  next
    case (Some payload)
    have "nonces_fresh E (snd (run (dispatch E payload) w))"
      using nonces_fresh_dispatch assms by (rule run_invariant)
    then show ?thesis using Text Some assms by (simp add: onMessage_def)
  qed
qed (use assms in \<open>simp_all add: onMessage_def\<close>)

lemma nonces_fresh_distinct:
  assumes "inj (uuid_v4 E)" and "nonces_fresh E w"
  shows "distinct (map nonce (sent (trace w))) \<and> None \<notin> set (map nonce (sent (trace w)))"
proof -
  obtain ks where ks: "map nonce (sent (trace w)) = map (\<lambda>k. Some (uuid_v4 E k)) ks"
      "distinct ks"
    using assms(2) unfolding nonces_fresh_def by blast
  have "inj (\<lambda>k. Some (uuid_v4 E k))"
    using assms(1) by (simp add: inj_def)
  then have "distinct (map (\<lambda>k. Some (uuid_v4 E k)) ks)"
    using ks(2) by (simp add: distinct_map inj_on_def inj_def)
  then show ?thesis unfolding ks(1) by auto
qed

lemma inj_sample_uuid: "inj (uuid_v4 sample_env)"
proof (rule injI)
  fix x y assume "uuid_v4 sample_env x = uuid_v4 sample_env y"
  then have "length (replicate (Suc x) CHR ''u'') = length (replicate (Suc y) CHR ''u'')"
    by (simp add: sample_env_def sample_uuid_def)
  then show "x = y" by simp
qed

lemma run_accumulate:
  assumes steps: "\<And>s x w'. (s, x) \<in> set sxs \<Longrightarrow> I w' = c \<Longrightarrow>
              fst (s w') = Done \<and> I (snd (s w')) = c \<and> g (snd (s w')) = g w' @ x"
    and post: "\<And>s w'. s \<in> set post \<Longrightarrow> g (snd (s w')) = g w'"
    and start: "I w = c"
  shows "g (snd (run (map fst sxs @ post) w)) = g w @ concat (map snd sxs)"
  using steps start
proof (induction sxs arbitrary: w)
  case Nil
  have "g (snd (run post w)) = g w" using post by (rule run_preserves)
  then show ?case by simp
next
  case (Cons sx sxs)
  obtain s x where sx: "sx = (s, x)" by (cases sx)
  have d: "fst (s w) = Done" and i: "I (snd (s w)) = c" and gx: "g (snd (s w)) = g w @ x"
    using Cons.prems(1) [of s x w] Cons.prems(2) sx by simp_all
  have "run (map fst (sx # sxs) @ post) w = run (map fst sxs @ post) (snd (s w))"
    using run_Cons_Done [of s w "map fst sxs @ post", OF d] sx by simp
  moreover have "g (snd (run (map fst sxs @ post) (snd (s w)))) =
      g (snd (s w)) @ concat (map snd sxs)"
    using Cons.prems(1) i by (intro Cons.IH) auto
  ultimately show ?case using gx sx by simp
qed

lemma onMessage_start_resume:
  "onMessage E event w =
     (case onMessage_start E event w of
        (Settled r, w') \<Rightarrow> (r, w')
      | (Suspended payload req, w') \<Rightarrow> onMessage_resume E payload (fetch E req) w')"
proof (cases event)
  case (Text d)
  show ?thesis
  proof (cases "JSON_parse E d")
    case None
    then show ?thesis using Text by (simp add: onMessage_def onMessage_start_def)
  next
    case (Some payload)
    show ?thesis
    proof (cases "nullish payload")
      case True
      then show ?thesis using Text Some by (simp add: onMessage_def onMessage_start_def)
    next
      case False
      obtain w1 where r: "on_READY E payload w = (Done, w1)"
        using on_READY_Done [of E payload w] by (cases "on_READY E payload w") simp
      have whole: "onMessage E event w =
          (case on_AUTHORIZE E payload w1 of
             (Done, w') \<Rightarrow> run (after_exchange E payload) w'
           | (Thrown e, w') \<Rightarrow> (Thrown e, w'))"
      proof -
        have a: "dispatch E payload =
            on_READY E payload # on_AUTHORIZE E payload # after_exchange E payload"
          by (simp add: dispatch_def after_exchange_def)
        have "run (dispatch E payload) w =
            run (on_AUTHORIZE E payload # after_exchange E payload) w1"
          unfolding a using r by simp
        then show ?thesis using Text Some False by (simp add: onMessage_def)
      qed
      have start: "onMessage_start E event w =
          (if cmd_is payload AUTHORIZE then
             (case js_get (js_prop payload ''data'') ''code'' of
                Inl e \<Rightarrow> (Settled (Thrown e), w1)
              | Inr code \<Rightarrow>
                  (Suspended payload \<lparr>url = STREAMKIT_URL @ ''/overlay/token'',
                                       http_method = ''POST'',
                                       body = JObj [(''code'', code)]\<rparr>,
                   emit (Fetched \<lparr>url = STREAMKIT_URL @ ''/overlay/token'',
                                   http_method = ''POST'',
                                   body = JObj [(''code'', code)]\<rparr>) w1))
           else (case run (after_exchange E payload) w1 of (r, w2) \<Rightarrow> (Settled r, w2)))"
        using Text Some False r
        by (simp add: onMessage_start_def Let_def split: sum.splits)
      show ?thesis
        unfolding whole start
        by (auto simp: on_AUTHORIZE_def onMessage_resume_def Let_def
              split: sum.splits prod.splits outcome.splits option.splits)
    qed
  qed
qed (simp_all add: onMessage_def onMessage_start_def)

subsection \<open>The two parts of a handler, and whole sessions\<close>

text \<open>
  Running a handler from start to end is the schedule in which the answer of the exchange
  arrives before anything else does (\<open>onMessage_start_resume\<close> above). What every part
  of every handler keeps, a session keeps over any sequence of arrivals.
\<close>

lemma after_exchange_dispatch:
  "s \<in> set (after_exchange E payload) \<Longrightarrow> s \<in> set (dispatch E payload)"
  by (auto simp: after_exchange_def dispatch_def)

lemma onMessage_start_this: "this (snd (onMessage_start E m w)) = this w"
proof (cases m)
  case (Text d)
  show ?thesis
  proof (cases "JSON_parse E d")
    case None
    then show ?thesis using Text by (simp add: onMessage_start_def)
  next
    case (Some payload)
    obtain w1 where r: "on_READY E payload w = (Done, w1)"
      using on_READY_Done [of E payload w] by (cases "on_READY E payload w") simp
    have w1: "this w1 = this w" using on_READY_this [of E payload w] r by simp
    have "this (snd (run (after_exchange E payload) w1)) = this w1"
      by (rule run_preserves) (auto simp: after_exchange_def dispatch_this)
    then show ?thesis
      using Text Some r w1
      by (auto simp: onMessage_start_def Let_def split: sum.splits prod.splits)
  qed
qed (simp_all add: onMessage_start_def)

lemma onMessage_resume_this: "this (snd (onMessage_resume E payload answer w)) = this w"
proof (cases answer)
  case (Inl e)
  then show ?thesis by (simp add: onMessage_resume_def)
next
  case (Inr res)
  have "this (snd (run (after_exchange E payload) w')) = this w'" for w'
    by (rule run_preserves) (auto simp: after_exchange_def dispatch_this)
  then show ?thesis
    using Inr by (simp add: onMessage_resume_def Let_def login_def split: option.splits)
qed

lemma nonces_fresh_start:
  assumes "nonces_fresh E w"
  shows "nonces_fresh E (snd (onMessage_start E m w))"
proof (cases m)
  case (Text d)
  show ?thesis
  proof (cases "JSON_parse E d")
    case None
    then show ?thesis using Text assms by (simp add: onMessage_start_def)
  next
    case (Some payload)
    obtain w1 where r: "on_READY E payload w = (Done, w1)"
      using on_READY_Done [of E payload w] by (cases "on_READY E payload w") simp
    have w1: "nonces_fresh E w1"
      using nonces_fresh_dispatch [of "on_READY E payload" E payload w] assms r
      by (simp add: dispatch_def)
    have "nonces_fresh E (snd (run (after_exchange E payload) w1))"
      using nonces_fresh_dispatch [OF after_exchange_dispatch] w1 by (rule run_invariant)
    then show ?thesis
      using Text Some r w1 assms
      by (auto simp: onMessage_start_def Let_def intro!: nonces_fresh_emit
            split: sum.splits prod.splits)
  qed
qed (use assms in \<open>simp_all add: onMessage_start_def\<close>)

lemma nonces_fresh_resume:
  assumes "nonces_fresh E w"
  shows "nonces_fresh E (snd (onMessage_resume E payload answer w))"
proof (cases answer)
  case (Inl e)
  then show ?thesis using assms by (simp add: onMessage_resume_def)
next
  case (Inr res)
  have "nonces_fresh E (snd (run (after_exchange E payload) w'))" if "nonces_fresh E w'" for w'
    using nonces_fresh_dispatch [OF after_exchange_dispatch] that by (rule run_invariant)
  then show ?thesis
    using Inr assms
    by (auto simp: onMessage_resume_def Let_def login_def
          intro!: nonces_fresh_send nonces_fresh_setAccessToken split: option.splits)
qed

lemma arrive_invariant:
  assumes start: "\<And>m w. P w \<Longrightarrow> P (snd (onMessage_start E m w))"
    and resume: "\<And>payload answer w. P w \<Longrightarrow> P (snd (onMessage_resume E payload answer w))"
    and "P (fst st)"
  shows "P (fst (arrive E a st))"
proof (cases st)
  case (Pair w pending)
  show ?thesis
  proof (cases a)
    case (Frame m)
    obtain r w' where s: "onMessage_start E m w = (r, w')" by (cases "onMessage_start E m w")
    have "P w'" using start [of w m] assms(3) Pair s by simp
    then show ?thesis using Pair Frame s by (cases r) simp_all
  next
    case (Answer i answer)
    then show ?thesis using Pair assms(3) resume by simp
  qed
qed

lemma schedule_invariant:
  assumes start: "\<And>m w. P w \<Longrightarrow> P (snd (onMessage_start E m w))"
    and resume: "\<And>payload answer w. P w \<Longrightarrow> P (snd (onMessage_resume E payload answer w))"
  shows "P (fst st) \<Longrightarrow> P (fst (fold (arrive E) arrivals st))"
proof (induction arrivals arbitrary: st)
  case Nil
  then show ?case by simp
next
  case (Cons a arrivals)
  have "P (fst (arrive E a st))" using start resume Cons.prems by (rule arrive_invariant)
  then show ?case using Cons.IH by simp
qed

lemma nonces_fresh_startup: "nonces_fresh E (startup ls)"
  by (simp add: nonces_fresh_def startup_def)

lemma nonces_fresh_init: "nonces_fresh E w \<Longrightarrow> nonces_fresh E (snd (init E w))"
  by (simp add: nonces_fresh_def init_def Let_def split: sum.splits)

lemma nonces_fresh_unused:
  assumes "inj (uuid_v4 E)" and "nonces_fresh E w"
  shows "Some (uuid_v4 E (uuid_calls w)) \<notin> set (map nonce (sent (trace w)))"
proof -
  obtain ks where ks: "map nonce (sent (trace w)) = map (\<lambda>k. Some (uuid_v4 E k)) ks"
      "\<forall>k \<in> set ks. k < uuid_calls w"
    using assms(2) unfolding nonces_fresh_def by blast
  have "uuid_v4 E (uuid_calls w) \<noteq> uuid_v4 E k" if "k \<in> set ks" for k
    using that ks(2) assms(1) by (auto dest: injD)
  then show ?thesis unfolding ks(1) by auto
qed

lemma session_nonces_distinct:
  assumes "inj (uuid_v4 E)"
  shows "distinct (map nonce (sent (trace (session E ls arrivals))))
       \<and> None \<notin> set (map nonce (sent (trace (session E ls arrivals))))"
proof -
  have 0: "nonces_fresh E (snd (init E (startup ls)))"
    using nonces_fresh_startup by (rule nonces_fresh_init)
  obtain r w where i: "init E (startup ls) = (r, w)" by (cases "init E (startup ls)")
  have w: "nonces_fresh E w" using 0 i by simp
  have "nonces_fresh E (fst (fold (arrive E) arrivals (w, [])))"
    by (rule schedule_invariant [where P = "nonces_fresh E"])
      (simp_all add: nonces_fresh_start nonces_fresh_resume w)
  then have "nonces_fresh E (session E ls arrivals)"
    using i w by (cases r) (simp_all add: session_def)
  then show ?thesis using assms nonces_fresh_distinct by blast
qed

lemma session_currentChannelId: "currentChannelId (this (session E ls arrivals)) = JNull"
proof -
  have 0: "currentChannelId (this (snd (init E (startup ls)))) = JNull"
    by (simp add: init_def startup_def SocketManager_new_def Let_def split: sum.splits)
  obtain r w where i: "init E (startup ls) = (r, w)" by (cases "init E (startup ls)")
  have w: "currentChannelId (this w) = JNull" using 0 i by simp
  have "currentChannelId (this (fst (fold (arrive E) arrivals (w, [])))) = JNull"
    by (rule schedule_invariant [where P = "\<lambda>w. currentChannelId (this w) = JNull"])
      (simp_all add: onMessage_start_this onMessage_resume_this w)
  then show ?thesis using i w by (cases r) (simp_all add: session_def)
qed

text \<open>
  A frame that arrives while an exchange is in flight is handled before the AUTHORIZE
  handler goes on: the request, the speaking event's store call and log line, and only
  then the AUTHENTICATE command and the log line of the AUTHORIZE response.
\<close>

lemma session_interleaved_example:
  "trace (session sample_env Map.empty
     [Frame (Text ''{\"cmd\":\"AUTHORIZE\",\"data\":{\"code\":\"abc\"}}''),
      Frame (Text ''{\"cmd\":\"DISPATCH\",\"evt\":\"SPEAKING_START\",\"data\":{\"user_id\":\"7\"}}''),
      Answer 0 (Inr \<lparr>access_token = ''fresh''\<rparr>)]) =
   [Fetched \<lparr>url = ''https://streamkit.discord.com/overlay/token'', http_method = ''POST'',
             body = JObj [(''code'', JStr ''abc'')]\<rparr>,
    StoreCall (setTalking (JStr ''7'') True),
    Logged (JObj [(''cmd'', JStr ''DISPATCH''), (''evt'', JStr ''SPEAKING_START''),
                  (''data'', JObj [(''user_id'', JStr ''7'')])]),
    Sent \<lparr>cmd = Some AUTHENTICATE, args = Some (JObj [(''access_token'', JStr ''fresh'')]),
          evt = None, nonce = Some ''u''\<rparr>,
    Logged (JObj [(''cmd'', JStr ''AUTHORIZE''), (''data'', JObj [(''code'', JStr ''abc'')])])]"
proof -
  have "session sample_env Map.empty arrivals =
      fst (fold (arrive sample_env) arrivals (connected Map.empty, []))" for arrivals
    by (simp add: session_def init_connected)
  then show ?thesis
    by (simp add: onMessage_start_def onMessage_resume_def after_exchange_def run_defs)
qed

section \<open>Frames other than text\<close>

text \<open>
  C9. A frame whose type is not \<open>Text\<close> ends \<open>onMessage\<close> at once: the handler completes
  and the world is the one it started in, so the session object, the token store, the
  trace of sent frames, store calls, requests and log lines are all unchanged.
\<close>

theorem non_text_frame_ignored:
  "Message_type event \<noteq> ''Text'' \<Longrightarrow> onMessage E event w = (Done, w)"
  by (simp add: onMessage_def)

theorem non_text_frame_ignored_witness:
  "Message_type (Binary [1, 2, 3]) \<noteq> ''Text''
   \<and> onMessage sample_env (Binary [1, 2, 3]) (connected Map.empty) = (Done, connected Map.empty)"
  using non_text_frame_ignored [of "Binary [1, 2, 3]" sample_env "connected Map.empty"] by simp

section \<open>The READY event\<close>

text \<open>
  C1, as the code has it. The claim as stated fails on two inputs: a payload that is
  both a READY event and an AUTHORIZE response also runs the exchange block, which sends
  an AUTHENTICATE command of its own; and a cached token that is the empty string is
  falsy, so the session asks for authorization. What holds: for every text frame whose
  payload has \<open>evt = READY\<close> and whose \<open>cmd\<close> is not AUTHORIZE, on a connected session
  with its token store, the AUTHENTICATE and AUTHORIZE commands the handler sends are
  exactly one AUTHENTICATE carrying the cached token when that token is a non-empty
  string, and exactly one AUTHORIZE with the client id and the \<open>rpc\<close> scope when no
  token or the empty string is cached.
\<close>

theorem ready_authenticates_or_authorizes:
  assumes "JSON_parse E d = Some payload"
    and "evt_is payload READY"
    and "\<not> cmd_is payload AUTHORIZE"
    and "socket (this w) = Some sock"
    and "tokenStore (this w) = Some ts"
  shows "(localStorage w (key ts) = Some t \<and> t \<noteq> [] \<longrightarrow>
            sent_commands [AUTHENTICATE, AUTHORIZE] (trace (snd (onMessage E (Text d) w))) =
            sent_commands [AUTHENTICATE, AUTHORIZE] (trace w) @
              [\<lparr>cmd = Some AUTHENTICATE, args = Some (JObj [(''access_token'', JStr t)]),
                evt = None, nonce = None\<rparr>])
       \<and> (localStorage w (key ts) = None \<or> localStorage w (key ts) = Some [] \<longrightarrow>
            sent_commands [AUTHENTICATE, AUTHORIZE] (trace (snd (onMessage E (Text d) w))) =
            sent_commands [AUTHENTICATE, AUTHORIZE] (trace w) @
              [\<lparr>cmd = Some AUTHORIZE,
                args = Some (JObj [(''client_id'', JStr STREAM_KIT_APP_ID),
                                   (''scopes'', JArr [JStr ''rpc''])]),
                evt = None, nonce = None\<rparr>])"
proof -
  let ?f = "\<lambda>w. sent_commands [AUTHENTICATE, AUTHORIZE] (trace w)"
  let ?rest = "[on_AUTHORIZE E payload,
      on_GET_SELECTED_VOICE_CHANNEL E payload,
      on_AUTHENTICATE E payload,
      on_SPEAKING E payload,
      on_VOICE_STATE_DELETE E payload,
      on_VOICE_STATE_CREATE E payload,
      on_GET_CHANNEL E payload,
      on_VOICE_CHANNEL_SELECT E payload,
      on_other E payload]"
  let ?w1 = "snd (on_READY E payload w)"
  have nn: "\<not> nullish payload" using assms(2) by (rule evt_is_not_nullish)
  have rest: "?f (snd (run ?rest ?w1)) = ?f ?w1"
    apply (rule run_preserves)
    using assms(3)
    apply (auto simp: block_defs call_defs send_trace Let_def js_get_opt_def cmd_is_def split: sum.splits option.splits)
    done
  have whole: "?f (snd (onMessage E (Text d) w)) = ?f ?w1"
  proof -
    have "run (dispatch E payload) w = run ?rest ?w1"
      unfolding dispatch_def by (rule run_Cons_Done [OF on_READY_Done])
    then show ?thesis
      using rest by (simp only: onMessage_Text [OF assms(1) nn])
  qed
  have f1: "?f ?w1 = ?f w @ [case localStorage w (key ts) of
            None \<Rightarrow> \<lparr>cmd = Some AUTHORIZE, args = Some (JObj [(''client_id'', JStr STREAM_KIT_APP_ID),
                                (''scopes'', JArr [JStr ''rpc''])]), evt = None, nonce = None\<rparr>
          | Some t \<Rightarrow> if t = [] then \<lparr>cmd = Some AUTHORIZE, args = Some (JObj [(''client_id'', JStr STREAM_KIT_APP_ID),
                                (''scopes'', JArr [JStr ''rpc''])]), evt = None, nonce = None\<rparr> else \<lparr>cmd = Some AUTHENTICATE,
             args = Some (JObj [(''access_token'', JStr t)]),
             evt = None, nonce = None\<rparr>]"
    using assms(2,4,5)
    by (simp add: on_READY_def Let_def login_def authenticate_def accessToken_def send_trace split: option.splits)
  show ?thesis
    unfolding whole f1 by auto
qed

theorem ready_authenticates_or_authorizes_witness:
  "sent_commands [AUTHENTICATE, AUTHORIZE]
     (trace (snd (onMessage sample_env (Text ''{\"cmd\":\"DISPATCH\",\"evt\":\"READY\"}'')
                    (connected (Map.empty(''discord_access_token'' \<mapsto> ''cached'')))))) =
   [\<lparr>cmd = Some AUTHENTICATE, args = Some (JObj [(''access_token'', JStr ''cached'')]),
     evt = None, nonce = None\<rparr>]"
  using ready_authenticates_or_authorizes
    [of sample_env "''{\"cmd\":\"DISPATCH\",\"evt\":\"READY\"}''"
        "JObj [(''cmd'', JStr ''DISPATCH''), (''evt'', JStr ''READY'')]"
        "connected (Map.empty(''discord_access_token'' \<mapsto> ''cached''))" 1 TokenStore_new
        "''cached''"]
  by (simp add: sample_env_def sample_parse_def connected_def TokenStore_new_def evt_is_def cmd_is_def)

text \<open>
  With the token \<open>cached\<close> stored, a READY payload that also carries \<open>cmd = AUTHORIZE\<close>
  makes the handler send two AUTHENTICATE commands; with the empty string stored, a plain
  READY event makes it send AUTHORIZE.
\<close>

theorem ready_counterexample:
  "sent_commands [AUTHENTICATE, AUTHORIZE]
     (trace (snd (onMessage sample_env
        (Text ''{\"cmd\":\"AUTHORIZE\",\"evt\":\"READY\",\"data\":{\"code\":\"abc\"}}'')
        (connected (Map.empty(''discord_access_token'' \<mapsto> ''cached'')))))) =
   [\<lparr>cmd = Some AUTHENTICATE, args = Some (JObj [(''access_token'', JStr ''cached'')]),
     evt = None, nonce = None\<rparr>,
    \<lparr>cmd = Some AUTHENTICATE, args = Some (JObj [(''access_token'', JStr ''fresh'')]),
     evt = None, nonce = None\<rparr>]
   \<and> sent_commands [AUTHENTICATE, AUTHORIZE]
     (trace (snd (onMessage sample_env (Text ''{\"cmd\":\"DISPATCH\",\"evt\":\"READY\"}'')
        (connected (Map.empty(''discord_access_token'' \<mapsto> '''')))))) =
   [\<lparr>cmd = Some AUTHORIZE,
     args = Some (JObj [(''client_id'', JStr ''207646673902501888''),
                        (''scopes'', JArr [JStr ''rpc''])]),
     evt = None, nonce = None\<rparr>]"
  by (simp add: run_defs)

section \<open>The AUTHORIZE response\<close>

text \<open>
  C3. For every text frame whose payload has \<open>cmd = AUTHORIZE\<close> and carries data (the
  one-time code is \<open>data.code\<close>), on a connected session with its token store, when the
  exchange answers: the handler makes exactly one request, a POST to
  \<open>https://streamkit.discord.com/overlay/token\<close> with the code in its body; directly
  after it sends one AUTHENTICATE command carrying the access token of the answer, and
  no AUTHENTICATE command follows; and the token store holds that token when the handler
  ends. What precedes the request (\<open>pre\<close>) is what the READY block sent, if the payload
  is a READY event too.
\<close>

theorem authorize_exchanges_code:
  assumes parse: "JSON_parse E d = Some payload"
    and cmd: "cmd_is payload AUTHORIZE"
    and data: "\<not> nullish (js_prop payload ''data'')"
    and req: "req = \<lparr>url = STREAMKIT_URL @ ''/overlay/token'', http_method = ''POST'',
                     body = JObj [(''code'', js_prop (js_prop payload ''data'') ''code'')]\<rparr>"
    and res: "fetch E req = Inr res"
    and sock: "socket (this w) = Some sock"
    and ts: "tokenStore (this w) = Some ts"
  shows "\<exists>pre post k.
           trace (snd (onMessage E (Text d) w)) =
             trace w @ pre @
             [Fetched req,
              Sent \<lparr>cmd = Some AUTHENTICATE,
                    args = Some (JObj [(''access_token'', JStr (access_token res))]),
                    evt = None, nonce = Some (uuid_v4 E k)\<rparr>] @ post
           \<and> fetched pre = [] \<and> fetched post = []
           \<and> sent_commands [AUTHENTICATE] post = []
           \<and> localStorage (snd (onMessage E (Text d) w)) (key ts) = Some (access_token res)"
proof -
  let ?rest = "[on_GET_SELECTED_VOICE_CHANNEL E payload,
      on_AUTHENTICATE E payload,
      on_SPEAKING E payload,
      on_VOICE_STATE_DELETE E payload,
      on_VOICE_STATE_CREATE E payload,
      on_GET_CHANNEL E payload,
      on_VOICE_CHANNEL_SELECT E payload,
      on_other E payload]"
  let ?Q = "\<lambda>t. fetched t = [] \<and> sent_commands [AUTHENTICATE] t = []"
  define w1 where "w1 = snd (on_READY E payload w)"
  define w2 where "w2 = snd (on_AUTHORIZE E payload w1)"
  have nn: "\<not> nullish payload" using cmd by (rule cmd_is_not_nullish)
  obtain pre where pre: "trace w1 = trace w @ pre" "fetched pre = []"
    unfolding w1_def using on_READY_appends by blast
  have this1: "this w1 = this w" by (simp add: w1_def on_READY_this)
  have auth: "on_AUTHORIZE E payload w1 =
      (Done, login E (JStr (access_token res)) (setAccessToken ts (access_token res) (emit (Fetched req) w1)))"
    using cmd data res ts this1
    by (simp add: on_AUTHORIZE_def js_get_def Let_def req)
  have done2: "fst (on_AUTHORIZE E payload w1) = Done" by (simp add: auth)
  have trace2: "trace w2 = trace w1 @
      [Fetched req,
       Sent \<lparr>cmd = Some AUTHENTICATE,
             args = Some (JObj [(''access_token'', JStr (access_token res))]),
             evt = None, nonce = Some (uuid_v4 E (uuid_calls w1))\<rparr>]"
    using sock this1 by (simp add: w2_def auth login_def send_trace setAccessToken_def)
  have ls2: "localStorage w2 (key ts) = Some (access_token res)"
    by (simp add: w2_def auth login_def setAccessToken_def)
  have "\<exists>post. trace (snd (run ?rest w2)) = trace w2 @ post \<and> ?Q post"
    using cmd
    by (intro run_appends)
      (auto simp: block_defs call_defs send_trace Let_def js_get_opt_def cmd_is_def
            split: sum.splits option.splits)
  then obtain post where post: "trace (snd (run ?rest w2)) = trace w2 @ post"
      "fetched post = []" "sent_commands [AUTHENTICATE] post = []"
    by blast
  have ls3: "localStorage (snd (run ?rest w2)) = localStorage w2"
    using cmd
    by (intro run_preserves)
      (auto simp: block_defs call_defs Let_def js_get_opt_def cmd_is_def
            split: sum.splits option.splits)
  have whole: "onMessage E (Text d) w = run ?rest w2"
  proof -
    have "run (dispatch E payload) w = run (tl (dispatch E payload)) w1"
      unfolding dispatch_def w1_def list.sel by (rule run_Cons_Done [of "on_READY E payload" w, OF on_READY_Done])
    also have "\<dots> = run ?rest w2"
      unfolding dispatch_def w2_def list.sel by (rule run_Cons_Done [of "on_AUTHORIZE E payload" w1, OF done2])
    finally show ?thesis by (simp only: onMessage_Text [OF parse nn])
  qed
  show ?thesis
    unfolding whole using post pre trace2 ls2 ls3 by auto
qed

theorem authorize_exchanges_code_witness:
  "\<exists>pre post k.
     trace (snd (onMessage sample_env (Text ''{\"cmd\":\"AUTHORIZE\",\"data\":{\"code\":\"abc\"}}'')
                   (connected Map.empty))) =
       trace (connected Map.empty) @ pre @
       [Fetched \<lparr>url = ''https://streamkit.discord.com/overlay/token'', http_method = ''POST'',
                 body = JObj [(''code'', JStr ''abc'')]\<rparr>,
        Sent \<lparr>cmd = Some AUTHENTICATE, args = Some (JObj [(''access_token'', JStr ''fresh'')]),
              evt = None, nonce = Some (uuid_v4 sample_env k)\<rparr>] @ post
     \<and> fetched pre = [] \<and> fetched post = []
     \<and> sent_commands [AUTHENTICATE] post = []
     \<and> localStorage (snd (onMessage sample_env
                             (Text ''{\"cmd\":\"AUTHORIZE\",\"data\":{\"code\":\"abc\"}}'')
                             (connected Map.empty))) ''discord_access_token'' = Some ''fresh''"
  using authorize_exchanges_code
    [of sample_env "''{\"cmd\":\"AUTHORIZE\",\"data\":{\"code\":\"abc\"}}''"
        "JObj [(''cmd'', JStr ''AUTHORIZE''), (''data'', JObj [(''code'', JStr ''abc'')])]"
        "\<lparr>url = ''https://streamkit.discord.com/overlay/token'', http_method = ''POST'',
          body = JObj [(''code'', JStr ''abc'')]\<rparr>"
        "\<lparr>access_token = ''fresh''\<rparr>" "connected Map.empty" 1 TokenStore_new]
  by (simp add: sample_env_def sample_parse_def connected_def TokenStore_new_def cmd_is_def
        STREAMKIT_URL_def)

section \<open>The AUTHENTICATE acknowledgement\<close>

text \<open>
  C4, as the code has it. The claim as stated fails on a payload that has
  \<open>cmd = AUTHENTICATE\<close> and \<open>evt = VOICE_CHANNEL_SELECT\<close>: the channel-select block asks
  for the selected voice channel a second time. What holds: for every text frame whose
  payload has \<open>cmd = AUTHENTICATE\<close>, carries data and is not a VOICE_CHANNEL_SELECT event,
  on a connected session with the store attached, the handler sends exactly one
  GET_SELECTED_VOICE_CHANNEL command and exactly one SUBSCRIBE command, the one for the
  VOICE_CHANNEL_SELECT event, and calls \<open>setMe\<close> exactly once, with \<open>data.user\<close>.
\<close>

theorem authenticate_requests_channel:
  assumes parse: "JSON_parse E d = Some payload"
    and cmd: "cmd_is payload AUTHENTICATE"
    and evt: "\<not> evt_is payload VOICE_CHANNEL_SELECT"
    and data: "\<not> nullish (js_prop payload ''data'')"
    and sock: "socket (this w) = Some sock"
    and st: "store (this w) = Some st"
  shows "sent_commands [GET_SELECTED_VOICE_CHANNEL] (trace (snd (onMessage E (Text d) w))) =
           sent_commands [GET_SELECTED_VOICE_CHANNEL] (trace w) @
             [\<lparr>cmd = Some GET_SELECTED_VOICE_CHANNEL, args = None, evt = None, nonce = None\<rparr>]
       \<and> sent_commands [SUBSCRIBE] (trace (snd (onMessage E (Text d) w))) =
           sent_commands [SUBSCRIBE] (trace w) @
             [\<lparr>cmd = Some SUBSCRIBE, args = None, evt = Some VOICE_CHANNEL_SELECT, nonce = None\<rparr>]
       \<and> filter is_setMe (store_calls (trace (snd (onMessage E (Text d) w)))) =
           filter is_setMe (store_calls (trace w)) @
             [setMe (js_prop (js_prop payload ''data'') ''user'')]"
proof -
  let ?f = "\<lambda>w::world. (this w,
                  sent_commands [GET_SELECTED_VOICE_CHANNEL] (trace w),
                  sent_commands [SUBSCRIBE] (trace w),
                  filter is_setMe (store_calls (trace w)))"
  let ?pre = "[on_READY E payload, on_AUTHORIZE E payload,
               on_GET_SELECTED_VOICE_CHANNEL E payload]"
  let ?post = "[on_SPEAKING E payload, on_VOICE_STATE_DELETE E payload,
                on_VOICE_STATE_CREATE E payload, on_GET_CHANNEL E payload,
                on_VOICE_CHANNEL_SELECT E payload, on_other E payload]"
  let ?v = "(this w,
             sent_commands [GET_SELECTED_VOICE_CHANNEL] (trace w) @
               [\<lparr>cmd = Some GET_SELECTED_VOICE_CHANNEL, args = None, evt = None, nonce = None\<rparr>],
             sent_commands [SUBSCRIBE] (trace w) @
               [\<lparr>cmd = Some SUBSCRIBE, args = None, evt = Some VOICE_CHANNEL_SELECT, nonce = None\<rparr>],
             filter is_setMe (store_calls (trace w)) @
               [setMe (js_prop (js_prop payload ''data'') ''user'')])"
  have nn: "\<not> nullish payload" using cmd by (rule cmd_is_not_nullish)
  have "?f (snd (run (?pre @ on_AUTHENTICATE E payload # ?post) w)) = ?v"
  proof (rule run_around)
    fix s :: step and w' :: world assume "s \<in> set ?pre"
    then show "fst (s w') = Done \<and> ?f (snd (s w')) = ?f w'"
      using cmd
      by (auto simp: block_defs call_defs send_trace Let_def cmd_is_def split: option.splits)
  next
    fix w' :: world assume "?f w' = ?f w"
    then show "fst (on_AUTHENTICATE E payload w') = Done \<and>
               ?f (snd (on_AUTHENTICATE E payload w')) = ?v"
      using cmd data sock st nn
      by (auto simp: on_AUTHENTICATE_def call_defs send_trace js_get_def js_get_opt_def cmd_is_def)
  next
    fix s :: step and w' :: world assume "s \<in> set ?post"
    then show "?f (snd (s w')) = ?f w'"
      using cmd evt
      by (auto simp: block_defs call_defs send_trace Let_def cmd_is_def
               split: sum.splits option.splits)
  qed
  then show ?thesis
    by (simp add: onMessage_Text [OF parse nn] dispatch_def del: run.simps)
qed

theorem authenticate_requests_channel_witness:
  "sent_commands [GET_SELECTED_VOICE_CHANNEL]
     (trace (snd (onMessage sample_env
        (Text ''{\"cmd\":\"AUTHENTICATE\",\"data\":{\"user\":{\"id\":\"1\"}}}'') (connected Map.empty)))) =
     [\<lparr>cmd = Some GET_SELECTED_VOICE_CHANNEL, args = None, evt = None, nonce = None\<rparr>]
   \<and> sent_commands [SUBSCRIBE]
     (trace (snd (onMessage sample_env
        (Text ''{\"cmd\":\"AUTHENTICATE\",\"data\":{\"user\":{\"id\":\"1\"}}}'') (connected Map.empty)))) =
     [\<lparr>cmd = Some SUBSCRIBE, args = None, evt = Some VOICE_CHANNEL_SELECT, nonce = None\<rparr>]
   \<and> filter is_setMe (store_calls
     (trace (snd (onMessage sample_env
        (Text ''{\"cmd\":\"AUTHENTICATE\",\"data\":{\"user\":{\"id\":\"1\"}}}'') (connected Map.empty))))) =
     [setMe (JObj [(''id'', JStr ''1'')])]"
  using authenticate_requests_channel
    [of sample_env "''{\"cmd\":\"AUTHENTICATE\",\"data\":{\"user\":{\"id\":\"1\"}}}''"
        "JObj [(''cmd'', JStr ''AUTHENTICATE''),
               (''data'', JObj [(''user'', JObj [(''id'', JStr ''1'')])])]"
        "connected Map.empty" 1 AppStore]
  by (simp add: sample_env_def sample_parse_def connected_def cmd_is_def evt_is_def)

text \<open>
  An AUTHENTICATE payload that is a VOICE_CHANNEL_SELECT event as well: two
  GET_SELECTED_VOICE_CHANNEL commands are sent.
\<close>

theorem authenticate_counterexample:
  "sent_commands [GET_SELECTED_VOICE_CHANNEL]
     (trace (snd (onMessage sample_env
        (Text ''{\"cmd\":\"AUTHENTICATE\",\"evt\":\"VOICE_CHANNEL_SELECT\",\"data\":{\"user\":{\"id\":\"1\"}}}'')
        (connected Map.empty)))) =
     [\<lparr>cmd = Some GET_SELECTED_VOICE_CHANNEL, args = None, evt = None, nonce = None\<rparr>,
      \<lparr>cmd = Some GET_SELECTED_VOICE_CHANNEL, args = None, evt = None, nonce = None\<rparr>]"
  by (simp add: run_defs)

section \<open>The diagnostic log\<close>

text \<open>
  C5, as the code has it. The claim as stated fails: the log statement is not the last
  arm of a chain but a test of its own on \<open>payload.cmd\<close>, so a payload that a dispatch
  block has handled is logged as well. What holds: for every text frame whose text
  parses, the handler writes the payload to the log exactly once when it runs to its end
  and \<open>payload.cmd\<close> is neither SUBSCRIBE nor AUTHENTICATE, and writes nothing
  otherwise (a block that raises ends the handler before the log statement); whether a
  dispatch block matched the payload plays no part.
\<close>

theorem log_written_unless_acknowledgement:
  assumes parse: "JSON_parse E d = Some payload"
  shows "logged (trace (snd (onMessage E (Text d) w))) =
           logged (trace w) @
           (if fst (onMessage E (Text d) w) = Done
               \<and> \<not> cmd_is payload SUBSCRIBE \<and> \<not> cmd_is payload AUTHENTICATE
            then [payload] else [])"
proof (cases "nullish payload")
  case True
  then show ?thesis using parse by (simp add: onMessage_def)
next
  case nn: False
  let ?blocks = "[on_READY E payload, on_AUTHORIZE E payload,
      on_GET_SELECTED_VOICE_CHANNEL E payload, on_AUTHENTICATE E payload,
      on_SPEAKING E payload, on_VOICE_STATE_DELETE E payload,
      on_VOICE_STATE_CREATE E payload, on_GET_CHANNEL E payload,
      on_VOICE_CHANNEL_SELECT E payload]"
  obtain r w9 where r9: "run ?blocks w = (r, w9)" by (cases "run ?blocks w")
  have "logged (trace (snd (run ?blocks w))) = logged (trace w)"
    by (intro run_preserves [where f = "\<lambda>w. logged (trace w)"])
      (auto simp: block_defs call_defs send_trace Let_def split: sum.splits option.splits)
  then have l9: "logged (trace w9) = logged (trace w)" using r9 by simp
  have "dispatch E payload = ?blocks @ [on_other E payload]" by (simp add: dispatch_def)
  then have whole: "onMessage E (Text d) w =
      (case run ?blocks w of (Done, w') \<Rightarrow> run [on_other E payload] w'
       | (Thrown e, w') \<Rightarrow> (Thrown e, w'))"
    by (simp only: onMessage_Text [OF parse nn] run_append)
  show ?thesis
    unfolding whole r9 using l9
    by (cases r) (simp_all add: on_other_def cmd_is_def)
qed

theorem log_written_unless_acknowledgement_witness:
  "logged (trace (snd (onMessage sample_env
      (Text ''{\"cmd\":\"AUTHENTICATE\",\"data\":{\"user\":{\"id\":\"1\"}}}'') (connected Map.empty)))) = []
   \<and> logged (trace (snd (onMessage sample_env
      (Text ''{\"cmd\":\"DISPATCH\",\"evt\":\"SPEAKING_START\",\"data\":{\"user_id\":\"7\"}}'')
      (connected Map.empty)))) =
     [JObj [(''cmd'', JStr ''DISPATCH''), (''evt'', JStr ''SPEAKING_START''),
            (''data'', JObj [(''user_id'', JStr ''7'')])]]"
proof -
  have "fst (onMessage sample_env
      (Text ''{\"cmd\":\"DISPATCH\",\"evt\":\"SPEAKING_START\",\"data\":{\"user_id\":\"7\"}}'')
      (connected Map.empty)) = Done"
    by (simp add: run_defs)
  then show ?thesis
    using log_written_unless_acknowledgement
      [of sample_env "''{\"cmd\":\"AUTHENTICATE\",\"data\":{\"user\":{\"id\":\"1\"}}}''"
          "JObj [(''cmd'', JStr ''AUTHENTICATE''),
                 (''data'', JObj [(''user'', JObj [(''id'', JStr ''1'')])])]"
          "connected Map.empty"]
      log_written_unless_acknowledgement
      [of sample_env
          "''{\"cmd\":\"DISPATCH\",\"evt\":\"SPEAKING_START\",\"data\":{\"user_id\":\"7\"}}''"
          "JObj [(''cmd'', JStr ''DISPATCH''), (''evt'', JStr ''SPEAKING_START''),
                 (''data'', JObj [(''user_id'', JStr ''7'')])]"
          "connected Map.empty"]
    by (simp add: sample_env_def sample_parse_def connected_def cmd_is_def)
qed

text \<open>A READY event, handled by the first dispatch block, is logged.\<close>

theorem log_counterexample:
  "evt_is (JObj [(''cmd'', JStr ''DISPATCH''), (''evt'', JStr ''READY'')]) READY
   \<and> logged (trace (snd (onMessage sample_env (Text ''{\"cmd\":\"DISPATCH\",\"evt\":\"READY\"}'')
                          (connected Map.empty)))) =
     [JObj [(''cmd'', JStr ''DISPATCH''), (''evt'', JStr ''READY'')]]"
  by (simp add: run_defs)

section \<open>Channel selection\<close>

text \<open>
  C7, as the code has it. The claim as stated fails on a payload that has
  \<open>evt = VOICE_CHANNEL_SELECT\<close> and \<open>cmd = GET_CHANNEL\<close> (or \<open>cmd = AUTHENTICATE\<close>): that
  block asks for the selected voice channel too, so two such commands are sent; and with
  \<open>cmd = AUTHORIZE\<close> the exchange may raise before the channel-select block is reached.
  What holds, for every text frame whose payload has \<open>evt = VOICE_CHANNEL_SELECT\<close>: if its
  \<open>cmd\<close> is none of AUTHORIZE, AUTHENTICATE and GET_CHANNEL and its \<open>data.channel_id\<close> is
  a truthy value \<open>c\<close> (such as \<open>"42"\<close>), then, on a connected session with the store
  attached, the last \<open>setCurrentChannel\<close> call of the handler is \<open>setCurrentChannel(c)\<close>,
  exactly one GET_SELECTED_VOICE_CHANNEL command is sent, and exactly one GET_CHANNEL
  command is sent, with \<open>args = {channel_id: c}\<close>; and if \<open>data?.channel_id\<close> is null or
  absent, no GET_CHANNEL command is sent, whatever the \<open>cmd\<close>.
\<close>

theorem channel_select_requests_channel:
  assumes parse: "JSON_parse E d = Some payload"
    and evt: "evt_is payload VOICE_CHANNEL_SELECT"
  shows "(\<not> cmd_is payload AUTHORIZE \<and> \<not> cmd_is payload AUTHENTICATE
            \<and> \<not> cmd_is payload GET_CHANNEL
            \<and> socket (this w) = Some sock \<and> store (this w) = Some st
            \<and> js_prop (js_prop payload ''data'') ''channel_id'' = c \<and> truthy c \<longrightarrow>
            last (filter is_setCurrentChannel (store_calls (trace (snd (onMessage E (Text d) w))))) =
              setCurrentChannel c
          \<and> sent_commands [GET_SELECTED_VOICE_CHANNEL] (trace (snd (onMessage E (Text d) w))) =
              sent_commands [GET_SELECTED_VOICE_CHANNEL] (trace w) @
                [\<lparr>cmd = Some GET_SELECTED_VOICE_CHANNEL, args = None, evt = None, nonce = None\<rparr>]
          \<and> sent_commands [GET_CHANNEL] (trace (snd (onMessage E (Text d) w))) =
              sent_commands [GET_CHANNEL] (trace w) @
                [\<lparr>cmd = Some GET_CHANNEL, args = Some (JObj [(''channel_id'', c)]),
                  evt = None, nonce = None\<rparr>])
       \<and> (js_get_opt (js_prop payload ''data'') ''channel_id'' = JNull
            \<or> js_get_opt (js_prop payload ''data'') ''channel_id'' = JUndefined \<longrightarrow>
            sent_commands [GET_CHANNEL] (trace (snd (onMessage E (Text d) w))) =
              sent_commands [GET_CHANNEL] (trace w))"
proof -
  let ?pre = "[on_READY E payload, on_AUTHORIZE E payload,
      on_GET_SELECTED_VOICE_CHANNEL E payload, on_AUTHENTICATE E payload,
      on_SPEAKING E payload, on_VOICE_STATE_DELETE E payload,
      on_VOICE_STATE_CREATE E payload, on_GET_CHANNEL E payload]"
  let ?post = "[on_other E payload]"
  have nn: "\<not> nullish payload" using evt by (rule evt_is_not_nullish)
  have whole: "onMessage E (Text d) w =
      run (?pre @ on_VOICE_CHANNEL_SELECT E payload # ?post) w"
    by (simp add: onMessage_Text [OF parse nn] dispatch_def del: run.simps)
  have A: "last (filter is_setCurrentChannel (store_calls (trace (snd (onMessage E (Text d) w))))) =
              setCurrentChannel c
          \<and> sent_commands [GET_SELECTED_VOICE_CHANNEL] (trace (snd (onMessage E (Text d) w))) =
              sent_commands [GET_SELECTED_VOICE_CHANNEL] (trace w) @
                [\<lparr>cmd = Some GET_SELECTED_VOICE_CHANNEL, args = None, evt = None, nonce = None\<rparr>]
          \<and> sent_commands [GET_CHANNEL] (trace (snd (onMessage E (Text d) w))) =
              sent_commands [GET_CHANNEL] (trace w) @
                [\<lparr>cmd = Some GET_CHANNEL, args = Some (JObj [(''channel_id'', c)]),
                  evt = None, nonce = None\<rparr>]"
    if c1: "\<not> cmd_is payload AUTHORIZE" "\<not> cmd_is payload AUTHENTICATE"
        "\<not> cmd_is payload GET_CHANNEL"
      and sock: "socket (this w) = Some sock" and st: "store (this w) = Some st"
      and c: "js_prop (js_prop payload ''data'') ''channel_id'' = c" and tr: "truthy c"
  proof -
    have data: "\<not> nullish (js_prop payload ''data'')"
      using c tr truthy_js_prop_not_nullish by blast
    let ?f = "\<lambda>w::world. (this w,
                sent_commands [GET_SELECTED_VOICE_CHANNEL] (trace w),
                sent_commands [GET_CHANNEL] (trace w))"
    let ?g = "\<lambda>w::world. last (filter is_setCurrentChannel (store_calls (trace w)))"
    have pre_done: "fst (s w') = Done \<and> this (snd (s w')) = this w'"
      if "s \<in> set ?pre" for s :: step and w' :: world
      using that c1 evt nn data
      by (auto simp: block_defs call_defs Let_def cmd_is_def evt_is_def js_get_def
            js_get_opt_def split: option.splits)
    have 1: "?f (snd (run (?pre @ on_VOICE_CHANNEL_SELECT E payload # ?post) w)) =
        (this w,
         sent_commands [GET_SELECTED_VOICE_CHANNEL] (trace w) @
           [\<lparr>cmd = Some GET_SELECTED_VOICE_CHANNEL, args = None, evt = None, nonce = None\<rparr>],
         sent_commands [GET_CHANNEL] (trace w) @
           [\<lparr>cmd = Some GET_CHANNEL, args = Some (JObj [(''channel_id'', c)]),
             evt = None, nonce = None\<rparr>])"
    proof (rule run_around)
      fix s :: step and w' :: world assume "s \<in> set ?pre"
      then show "fst (s w') = Done \<and> ?f (snd (s w')) = ?f w'"
        using c1 evt nn data
        by (auto simp: block_defs call_defs send_trace Let_def cmd_is_def evt_is_def js_get_def
              js_get_opt_def split: option.splits)
    next
      fix w' :: world assume "?f w' = ?f w"
      then show "fst (on_VOICE_CHANNEL_SELECT E payload w') = Done \<and>
          ?f (snd (on_VOICE_CHANNEL_SELECT E payload w')) =
          (this w,
           sent_commands [GET_SELECTED_VOICE_CHANNEL] (trace w) @
             [\<lparr>cmd = Some GET_SELECTED_VOICE_CHANNEL, args = None, evt = None, nonce = None\<rparr>],
           sent_commands [GET_CHANNEL] (trace w) @
             [\<lparr>cmd = Some GET_CHANNEL, args = Some (JObj [(''channel_id'', c)]),
               evt = None, nonce = None\<rparr>])"
        using evt data c tr sock st
        by (auto simp: on_VOICE_CHANNEL_SELECT_def call_defs send_trace js_get_def js_get_opt_def)
    next
      fix s :: step and w' :: world assume "s \<in> set ?post"
      then show "?f (snd (s w')) = ?f w'"
        by (auto simp: on_other_def)
    qed
    have 2: "?g (snd (run (?pre @ on_VOICE_CHANNEL_SELECT E payload # ?post) w)) =
        setCurrentChannel c"
    proof (rule run_around_inv [where I = this])
      fix s :: step and w' :: world assume "s \<in> set ?pre"
      then show "fst (s w') = Done \<and> this (snd (s w')) = this w'"
        by (rule pre_done)
    next
      fix w' :: world assume "this w' = this w"
      then show "fst (on_VOICE_CHANNEL_SELECT E payload w') = Done \<and>
          ?g (snd (on_VOICE_CHANNEL_SELECT E payload w')) = setCurrentChannel c"
        using evt data c tr sock st
        by (auto simp: on_VOICE_CHANNEL_SELECT_def call_defs send_trace js_get_def js_get_opt_def)
    next
      fix s :: step and w' :: world assume "s \<in> set ?post"
      then show "?g (snd (s w')) = ?g w'"
        by (auto simp: on_other_def)
    qed
    show ?thesis using 1 2 unfolding whole by simp
  qed
  have B: "sent_commands [GET_CHANNEL] (trace (snd (onMessage E (Text d) w))) =
              sent_commands [GET_CHANNEL] (trace w)"
    if "js_get_opt (js_prop payload ''data'') ''channel_id'' = JNull
        \<or> js_get_opt (js_prop payload ''data'') ''channel_id'' = JUndefined"
  proof -
    have "sent_commands [GET_CHANNEL] (trace (snd (run (dispatch E payload) w))) =
        sent_commands [GET_CHANNEL] (trace w)"
      using that
      by (intro run_preserves [where f = "\<lambda>w. sent_commands [GET_CHANNEL] (trace w)"])
        (auto simp: dispatch_def block_defs call_defs send_trace Let_def
              split: sum.splits option.splits)
    then show ?thesis by (simp only: onMessage_Text [OF parse nn])
  qed
  show ?thesis using A B by blast
qed

theorem channel_select_requests_channel_witness:
  "last (filter is_setCurrentChannel (store_calls (trace (snd (onMessage sample_env
      (Text ''{\"evt\":\"VOICE_CHANNEL_SELECT\",\"data\":{\"channel_id\":\"42\"}}'')
      (connected Map.empty)))))) = setCurrentChannel (JStr ''42'')
   \<and> sent_commands [GET_SELECTED_VOICE_CHANNEL] (trace (snd (onMessage sample_env
      (Text ''{\"evt\":\"VOICE_CHANNEL_SELECT\",\"data\":{\"channel_id\":\"42\"}}'')
      (connected Map.empty)))) =
     [\<lparr>cmd = Some GET_SELECTED_VOICE_CHANNEL, args = None, evt = None, nonce = None\<rparr>]
   \<and> sent_commands [GET_CHANNEL] (trace (snd (onMessage sample_env
      (Text ''{\"evt\":\"VOICE_CHANNEL_SELECT\",\"data\":{\"channel_id\":\"42\"}}'')
      (connected Map.empty)))) =
     [\<lparr>cmd = Some GET_CHANNEL, args = Some (JObj [(''channel_id'', JStr ''42'')]),
       evt = None, nonce = None\<rparr>]
   \<and> sent_commands [GET_CHANNEL] (trace (snd (onMessage sample_env
      (Text ''{\"evt\":\"VOICE_CHANNEL_SELECT\",\"data\":{\"channel_id\":null}}'')
      (connected Map.empty)))) = []"
  using channel_select_requests_channel
    [of sample_env "''{\"evt\":\"VOICE_CHANNEL_SELECT\",\"data\":{\"channel_id\":\"42\"}}''"
        "JObj [(''evt'', JStr ''VOICE_CHANNEL_SELECT''),
               (''data'', JObj [(''channel_id'', JStr ''42'')])]"
        "connected Map.empty" 1 AppStore "JStr ''42''"]
    channel_select_requests_channel
    [of sample_env "''{\"evt\":\"VOICE_CHANNEL_SELECT\",\"data\":{\"channel_id\":null}}''"
        "JObj [(''evt'', JStr ''VOICE_CHANNEL_SELECT''),
               (''data'', JObj [(''channel_id'', JNull)])]"
        "connected Map.empty" 1 AppStore JNull]
  by (simp add: sample_env_def sample_parse_def connected_def evt_is_def cmd_is_def js_get_opt_def)

text \<open>
  A VOICE_CHANNEL_SELECT event with \<open>cmd = GET_CHANNEL\<close>: two GET_SELECTED_VOICE_CHANNEL
  commands are sent.
\<close>

theorem channel_select_counterexample:
  "sent_commands [GET_SELECTED_VOICE_CHANNEL] (trace (snd (onMessage sample_env
      (Text ''{\"cmd\":\"GET_CHANNEL\",\"evt\":\"VOICE_CHANNEL_SELECT\",\"data\":{\"channel_id\":\"42\"}}'')
      (connected Map.empty)))) =
     [\<lparr>cmd = Some GET_SELECTED_VOICE_CHANNEL, args = None, evt = None, nonce = None\<rparr>,
      \<lparr>cmd = Some GET_SELECTED_VOICE_CHANNEL, args = None, evt = None, nonce = None\<rparr>]"
  by (simp add: run_defs)

section \<open>The selected voice channel\<close>

text \<open>
  C2. For every text frame whose payload has \<open>cmd = GET_SELECTED_VOICE_CHANNEL\<close> and
  carries data with channel id \<open>C = data.id\<close> and voice-state list \<open>L = data.voice_states\<close>,
  on a connected session with the store attached: the handler sends five SUBSCRIBE
  commands with \<open>args = {channel_id: C}\<close>, one per entry of the event list, which is
  speaking-start, speaking-stop, voice-state-create, voice-state-delete,
  voice-state-delete, in this order; directly after them it calls \<open>setUsers(L)\<close> and then
  \<open>setCurrentChannel(C)\<close>. No other SUBSCRIBE command and no other \<open>setUsers\<close> call is made
  by the handler, and no further \<open>setCurrentChannel\<close> call unless the payload is a
  VOICE_CHANNEL_SELECT event as well. What precedes (\<open>pre\<close>) is what the READY block
  sent, if the payload is a READY event too.
\<close>

theorem selected_channel_subscribes:
  assumes parse: "JSON_parse E d = Some payload"
    and cmd: "cmd_is payload GET_SELECTED_VOICE_CHANNEL"
    and data: "\<not> nullish (js_prop payload ''data'')"
    and C: "js_prop (js_prop payload ''data'') ''id'' = C"
    and L: "js_prop (js_prop payload ''data'') ''voice_states'' = L"
    and sock: "socket (this w) = Some sock"
    and st: "store (this w) = Some st"
  shows "\<exists>pre frames post.
           trace (snd (onMessage E (Text d) w)) =
             trace w @ pre @ map Sent frames @
             [StoreCall (setUsers L), StoreCall (setCurrentChannel C)] @ post
         \<and> map (\<lambda>p. p\<lparr>nonce := None\<rparr>) frames =
             map (\<lambda>e. \<lparr>cmd = Some SUBSCRIBE, args = Some (JObj [(''channel_id'', C)]),
                        evt = Some e, nonce = None\<rparr>)
               [SPEAKING_START, SPEAKING_STOP, VOICE_STATE_CREATE, VOICE_STATE_DELETE,
                VOICE_STATE_DELETE]
         \<and> store_calls pre = [] \<and> sent_commands [SUBSCRIBE] pre = []
         \<and> sent_commands [SUBSCRIBE] post = []
         \<and> filter is_setUsers (store_calls post) = []
         \<and> (\<not> evt_is payload VOICE_CHANNEL_SELECT \<longrightarrow>
              filter is_setCurrentChannel (store_calls post) = [])"
proof -
  let ?rest = "[on_AUTHENTICATE E payload,
      on_SPEAKING E payload,
      on_VOICE_STATE_DELETE E payload,
      on_VOICE_STATE_CREATE E payload,
      on_GET_CHANNEL E payload,
      on_VOICE_CHANNEL_SELECT E payload,
      on_other E payload]"
  let ?Q = "\<lambda>t. sent_commands [SUBSCRIBE] t = [] \<and> filter is_setUsers (store_calls t) = []
              \<and> (\<not> evt_is payload VOICE_CHANNEL_SELECT \<longrightarrow>
                   filter is_setCurrentChannel (store_calls t) = [])"
  define w1 where "w1 = snd (on_READY E payload w)"
  define w3 where "w3 = snd (on_GET_SELECTED_VOICE_CHANNEL E payload w1)"
  let ?frames = "map (\<lambda>(k, e). \<lparr>cmd = Some SUBSCRIBE, args = Some (JObj [(''channel_id'', C)]),
                        evt = Some e, nonce = Some (uuid_v4 E (uuid_calls w1 + k))\<rparr>)
               [(1, SPEAKING_START), (3, SPEAKING_STOP), (5, VOICE_STATE_CREATE),
                (7, VOICE_STATE_DELETE), (9, VOICE_STATE_DELETE)]"
  have nn: "\<not> nullish payload" using cmd by (rule cmd_is_not_nullish)
  obtain pre where pre: "trace w1 = trace w @ pre" "store_calls pre = []"
      "sent_commands [SUBSCRIBE] pre = []"
    unfolding w1_def using on_READY_appends by blast
  have this1: "this w1 = this w" by (simp add: w1_def on_READY_this)
  have auth: "on_AUTHORIZE E payload w1 = (Done, w1)"
    using cmd by (simp add: on_AUTHORIZE_def cmd_is_def)
  have done3: "fst (on_GET_SELECTED_VOICE_CHANNEL E payload w1) = Done"
    using cmd data
    by (simp add: on_GET_SELECTED_VOICE_CHANNEL_def store_call_def js_get_def split: option.splits)
  have trace3: "trace w3 = trace w1 @ map Sent ?frames @
      [StoreCall (setUsers L), StoreCall (setCurrentChannel C)]"
    using cmd data C L sock st this1
    by (simp add: w3_def on_GET_SELECTED_VOICE_CHANNEL_def store_call_def js_get_def
          channelEvents_def SUBSCRIBABLE_EVENTS_def uuid_def send_trace send_uuid_calls
          eval_nat_numeral)
  have "\<exists>post. trace (snd (run ?rest w3)) = trace w3 @ post \<and> ?Q post"
    using cmd
    by (intro run_appends)
      (auto simp: block_defs call_defs send_trace Let_def js_get_opt_def cmd_is_def
            split: sum.splits option.splits)
  then obtain post where post: "trace (snd (run ?rest w3)) = trace w3 @ post"
      "sent_commands [SUBSCRIBE] post = []" "filter is_setUsers (store_calls post) = []"
      "\<not> evt_is payload VOICE_CHANNEL_SELECT \<longrightarrow>
         filter is_setCurrentChannel (store_calls post) = []"
    by blast
  have whole: "onMessage E (Text d) w = run ?rest w3"
  proof -
    have "run (dispatch E payload) w = run (tl (dispatch E payload)) w1"
      unfolding dispatch_def w1_def list.sel
      by (rule run_Cons_Done [of "on_READY E payload" w, OF on_READY_Done])
    also have "\<dots> = run (tl (tl (dispatch E payload))) w1"
      unfolding dispatch_def list.sel
      using run_Cons_Done [of "on_AUTHORIZE E payload" w1] auth by simp
    also have "\<dots> = run ?rest w3"
      unfolding dispatch_def w3_def list.sel
      by (rule run_Cons_Done [of "on_GET_SELECTED_VOICE_CHANNEL E payload" w1, OF done3])
    finally show ?thesis by (simp only: onMessage_Text [OF parse nn])
  qed
  have eq: "trace (snd (onMessage E (Text d) w)) =
      trace w @ pre @ map Sent ?frames @
      [StoreCall (setUsers L), StoreCall (setCurrentChannel C)] @ post"
    unfolding whole post(1) trace3 pre(1) by simp
  have fr: "map (\<lambda>p. p\<lparr>nonce := None\<rparr>) ?frames =
      map (\<lambda>e. \<lparr>cmd = Some SUBSCRIBE, args = Some (JObj [(''channel_id'', C)]),
                 evt = Some e, nonce = None\<rparr>)
        [SPEAKING_START, SPEAKING_STOP, VOICE_STATE_CREATE, VOICE_STATE_DELETE,
         VOICE_STATE_DELETE]"
    by simp
  show ?thesis
    using eq fr pre(2,3) post(2,3,4) by blast
qed

theorem selected_channel_subscribes_witness:
  "\<exists>pre frames post.
     trace (snd (onMessage sample_env
       (Text ''{\"cmd\":\"GET_SELECTED_VOICE_CHANNEL\",\"data\":{\"id\":\"7\",\"voice_states\":[]}}'')
       (connected Map.empty))) =
       trace (connected Map.empty) @ pre @ map Sent frames @
       [StoreCall (setUsers (JArr [])), StoreCall (setCurrentChannel (JStr ''7''))] @ post
     \<and> map (\<lambda>p. p\<lparr>nonce := None\<rparr>) frames =
         map (\<lambda>e. \<lparr>cmd = Some SUBSCRIBE, args = Some (JObj [(''channel_id'', JStr ''7'')]),
                    evt = Some e, nonce = None\<rparr>)
           [SPEAKING_START, SPEAKING_STOP, VOICE_STATE_CREATE, VOICE_STATE_DELETE,
            VOICE_STATE_DELETE]
     \<and> store_calls pre = [] \<and> sent_commands [SUBSCRIBE] pre = []
     \<and> sent_commands [SUBSCRIBE] post = []
     \<and> filter is_setUsers (store_calls post) = []
     \<and> filter is_setCurrentChannel (store_calls post) = []"
  using selected_channel_subscribes
    [of sample_env
        "''{\"cmd\":\"GET_SELECTED_VOICE_CHANNEL\",\"data\":{\"id\":\"7\",\"voice_states\":[]}}''"
        "JObj [(''cmd'', JStr ''GET_SELECTED_VOICE_CHANNEL''),
               (''data'', JObj [(''id'', JStr ''7''), (''voice_states'', JArr [])])]"
        "JStr ''7''" "JArr []" "connected Map.empty" 1 AppStore]
  by (simp add: sample_env_def sample_parse_def connected_def cmd_is_def evt_is_def)

section \<open>Speaking events\<close>

text \<open>
  C6, as the code has it. The claim as stated fails on a payload that has
  \<open>evt = SPEAKING_START\<close> and \<open>cmd = AUTHORIZE\<close> when the exchange is rejected: the handler
  raises at line 119 and never reaches the speaking block. What holds: for every text
  frame whose payload has \<open>evt = SPEAKING_START\<close> or \<open>evt = SPEAKING_STOP\<close> and carries
  data, \<open>U\<close> being its \<open>data.user_id\<close>, with the store attached, and whose \<open>cmd\<close> is not
  AUTHORIZE or whose exchange answers: the handler calls \<open>setTalking(U, true)\<close> for
  SPEAKING_START and \<open>setTalking(U, false)\<close> for SPEAKING_STOP, once, as its last store
  call. The store calls before it are those of the GET_SELECTED_VOICE_CHANNEL block
  (\<open>setUsers\<close>, \<open>setCurrentChannel\<close>) or of the AUTHENTICATE block (\<open>setMe\<close>), made only when
  the payload carries that command as well; the speaking block makes no other store call.
\<close>

theorem speaking_sets_flag:
  assumes parse: "JSON_parse E d = Some payload"
    and data: "\<not> nullish (js_prop payload ''data'')"
    and U: "js_prop (js_prop payload ''data'') ''user_id'' = U"
    and st: "store (this w) = Some st"
    and exch: "cmd_is payload AUTHORIZE \<longrightarrow>
                 (\<exists>res. fetch E \<lparr>url = STREAMKIT_URL @ ''/overlay/token'', http_method = ''POST'',
                                  body = JObj [(''code'', js_prop (js_prop payload ''data'') ''code'')]\<rparr>
                        = Inr res)"
  shows "(evt_is payload SPEAKING_START \<longrightarrow>
            store_calls (trace (snd (onMessage E (Text d) w))) =
              store_calls (trace w) @
              (if cmd_is payload GET_SELECTED_VOICE_CHANNEL
               then [setUsers (js_prop (js_prop payload ''data'') ''voice_states''),
                     setCurrentChannel (js_prop (js_prop payload ''data'') ''id'')]
               else []) @
              (if cmd_is payload AUTHENTICATE
               then [setMe (js_prop (js_prop payload ''data'') ''user'')] else []) @
              [setTalking U True])
       \<and> (evt_is payload SPEAKING_STOP \<longrightarrow>
            store_calls (trace (snd (onMessage E (Text d) w))) =
              store_calls (trace w) @
              (if cmd_is payload GET_SELECTED_VOICE_CHANNEL
               then [setUsers (js_prop (js_prop payload ''data'') ''voice_states''),
                     setCurrentChannel (js_prop (js_prop payload ''data'') ''id'')]
               else []) @
              (if cmd_is payload AUTHENTICATE
               then [setMe (js_prop (js_prop payload ''data'') ''user'')] else []) @
              [setTalking U False])"
proof -
  let ?gs = "if cmd_is payload GET_SELECTED_VOICE_CHANNEL
             then [setUsers (js_prop (js_prop payload ''data'') ''voice_states''),
                   setCurrentChannel (js_prop (js_prop payload ''data'') ''id'')]
             else []"
  let ?au = "if cmd_is payload AUTHENTICATE
             then [setMe (js_prop (js_prop payload ''data'') ''user'')] else []"
  have main: "store_calls (trace (snd (onMessage E (Text d) w))) =
      store_calls (trace w) @ ?gs @ ?au @ [setTalking U (evt_is payload SPEAKING_START)]"
    if evt: "evt_is payload SPEAKING_START \<or> evt_is payload SPEAKING_STOP"
  proof -
    let ?sxs = "[(on_READY E payload, []),
                 (on_AUTHORIZE E payload, []),
                 (on_GET_SELECTED_VOICE_CHANNEL E payload, ?gs),
                 (on_AUTHENTICATE E payload, ?au),
                 (on_SPEAKING E payload, [setTalking U (evt_is payload SPEAKING_START)])]"
    let ?post = "[on_VOICE_STATE_DELETE E payload, on_VOICE_STATE_CREATE E payload,
                  on_GET_CHANNEL E payload, on_VOICE_CHANNEL_SELECT E payload,
                  on_other E payload]"
    have nn: "\<not> nullish payload" using evt evt_is_not_nullish by blast
    have "store_calls (trace (snd (run (map fst ?sxs @ ?post) w))) =
        store_calls (trace w) @ concat (map snd ?sxs)"
    proof (rule run_accumulate [where I = this and c = "this w"
            and g = "\<lambda>w. store_calls (trace w)"])
      fix s :: step and x and w' :: world
      assume "(s, x) \<in> set ?sxs" and "this w' = this w"
      then show "fst (s w') = Done \<and> this (snd (s w')) = this w \<and>
          store_calls (trace (snd (s w'))) = store_calls (trace w') @ x"
        using evt data U st exch nn
        by (auto simp: block_defs call_defs send_trace Let_def js_get_def js_get_opt_def
              evt_is_def cmd_is_def split: option.splits)
    next
      fix s :: step and w' :: world
      assume "s \<in> set ?post"
      then show "store_calls (trace (snd (s w'))) = store_calls (trace w')"
        using evt
        by (auto simp: block_defs call_defs send_trace Let_def evt_is_def
              split: sum.splits option.splits)
    qed simp
    then show ?thesis
      by (simp add: onMessage_Text [OF parse nn] dispatch_def del: run.simps)
  qed
  have stop: "evt_is payload SPEAKING_STOP \<Longrightarrow> \<not> evt_is payload SPEAKING_START"
    by (simp add: evt_is_def)
  show ?thesis using main stop by simp
qed

theorem speaking_sets_flag_witness:
  "store_calls (trace (snd (onMessage sample_env
       (Text ''{\"cmd\":\"DISPATCH\",\"evt\":\"SPEAKING_STOP\",\"data\":{\"user_id\":\"7\"}}'')
       (connected Map.empty)))) = [setTalking (JStr ''7'') False]
   \<and> store_calls (trace (snd (onMessage sample_env
       (Text ''{\"cmd\":\"AUTHORIZE\",\"evt\":\"SPEAKING_START\",\"data\":{\"user_id\":\"7\"}}'')
       (connected Map.empty)))) = [setTalking (JStr ''7'') True]"
  using speaking_sets_flag
    [of sample_env
        "''{\"cmd\":\"DISPATCH\",\"evt\":\"SPEAKING_STOP\",\"data\":{\"user_id\":\"7\"}}''"
        "JObj [(''cmd'', JStr ''DISPATCH''), (''evt'', JStr ''SPEAKING_STOP''),
               (''data'', JObj [(''user_id'', JStr ''7'')])]"
        "JStr ''7''" "connected Map.empty" AppStore]
    speaking_sets_flag
    [of sample_env
        "''{\"cmd\":\"AUTHORIZE\",\"evt\":\"SPEAKING_START\",\"data\":{\"user_id\":\"7\"}}''"
        "JObj [(''cmd'', JStr ''AUTHORIZE''), (''evt'', JStr ''SPEAKING_START''),
               (''data'', JObj [(''user_id'', JStr ''7'')])]"
        "JStr ''7''" "connected Map.empty" AppStore]
  by (simp add: sample_env_def sample_parse_def connected_def evt_is_def cmd_is_def)

text \<open>
  A SPEAKING_START event that carries \<open>cmd = AUTHORIZE\<close>, with the exchange rejected: the
  handler raises and no store call is made.
\<close>

theorem speaking_counterexample:
  "evt_is (JObj [(''cmd'', JStr ''AUTHORIZE''), (''evt'', JStr ''SPEAKING_START''),
                 (''data'', JObj [(''user_id'', JStr ''7'')])]) SPEAKING_START
   \<and> fst (onMessage (sample_env\<lparr>fetch := (\<lambda>req. Inl (Rejected ''offline''))\<rparr>)
       (Text ''{\"cmd\":\"AUTHORIZE\",\"evt\":\"SPEAKING_START\",\"data\":{\"user_id\":\"7\"}}'')
       (connected Map.empty)) = Thrown (Rejected ''offline'')
   \<and> store_calls (trace (snd (onMessage (sample_env\<lparr>fetch := (\<lambda>req. Inl (Rejected ''offline''))\<rparr>)
       (Text ''{\"cmd\":\"AUTHORIZE\",\"evt\":\"SPEAKING_START\",\"data\":{\"user_id\":\"7\"}}'')
       (connected Map.empty)))) = []"
  by (simp add: run_defs)

section \<open>Nonces\<close>

text \<open>
  C8. With \<open>uuid.v4()\<close> taken as a source of pairwise distinct values (the \<open>k\<close>-th draw
  is \<open>uuid_v4 E k\<close>, an injective function), as an invariant of each send, so that it
  holds in whatever order the handlers of a session run. In a world where every frame sent
  so far carries a nonce of a draw of its own (\<open>nonces_fresh\<close>): \<open>send\<close> keeps that, the
  nonces of all frames sent are pairwise distinct after it and none is missing; on a
  connected session the frame it writes carries the value drawn at that moment, over any
  nonce the payload already held, and that value is the nonce of no frame sent before.
  The same holds for \<open>channelEvents\<close>, which sends five frames. The invariant holds in
  the world a process starts in and is kept by \<open>init\<close>, by every dispatch block, by the
  whole handler and by the steps of the AUTHORIZE block on either side of its \<open>await\<close>.
\<close>

theorem nonces_pairwise_distinct:
  assumes inj: "inj (uuid_v4 E)" and fresh: "nonces_fresh E w"
  shows "nonces_fresh E (send E p w)
       \<and> distinct (map nonce (sent (trace (send E p w))))
       \<and> None \<notin> set (map nonce (sent (trace (send E p w))))
       \<and> (socket (this w) = Some sock \<longrightarrow>
            sent (trace (send E p w)) =
              sent (trace w) @ [p\<lparr>nonce := Some (uuid_v4 E (uuid_calls w))\<rparr>]
            \<and> Some (uuid_v4 E (uuid_calls w)) \<notin> set (map nonce (sent (trace w))))
       \<and> nonces_fresh E (channelEvents E c ch w)
       \<and> distinct (map nonce (sent (trace (channelEvents E c ch w))))
       \<and> (socket (this w) = Some sock \<longrightarrow>
            length (sent (trace (channelEvents E c ch w))) = length (sent (trace w)) + 5)
       \<and> (\<forall>s \<in> set (dispatch E payload). nonces_fresh E (snd (s w)))
       \<and> nonces_fresh E (snd (onMessage E m w))
       \<and> nonces_fresh E (emit (Fetched r) w)
       \<and> nonces_fresh E (setAccessToken ts t w)
       \<and> nonces_fresh E (snd (init E w))
       \<and> nonces_fresh E (startup ls)"
proof -
  have s: "nonces_fresh E (send E p w)" using fresh by (rule nonces_fresh_send)
  have c: "nonces_fresh E (channelEvents E c ch w)" using fresh by (rule nonces_fresh_channelEvents)
  have len: "length (sent (trace (channelEvents E c ch w))) = length (sent (trace w)) + 5"
    if "socket (this w) = Some sock"
    using that by (simp add: channelEvents_trace)
  show ?thesis
    using s c len nonces_fresh_distinct [OF inj s] nonces_fresh_distinct [OF inj c]
      nonces_fresh_unused [OF inj fresh] nonces_fresh_dispatch [of _ E payload w]
      nonces_fresh_onMessage [OF fresh] nonces_fresh_emit(2) [OF fresh]
      nonces_fresh_setAccessToken [OF fresh] nonces_fresh_init [OF fresh]
      nonces_fresh_startup fresh
    by (simp add: send_trace)
qed

theorem nonces_pairwise_distinct_witness:
  "distinct (map nonce (sent (trace (channelEvents sample_env SUBSCRIBE (JStr ''7'')
      (snd (onMessage sample_env (Text ''{\"cmd\":\"DISPATCH\",\"evt\":\"READY\"}'')
             (connected Map.empty)))))))
   \<and> length (sent (trace (channelEvents sample_env SUBSCRIBE (JStr ''7'')
      (snd (onMessage sample_env (Text ''{\"cmd\":\"DISPATCH\",\"evt\":\"READY\"}'')
             (connected Map.empty)))))) = 6"
proof -
  let ?w = "snd (onMessage sample_env (Text ''{\"cmd\":\"DISPATCH\",\"evt\":\"READY\"}'')
             (connected Map.empty))"
  have "nonces_fresh sample_env (connected Map.empty)"
    by (simp add: nonces_fresh_def connected_def)
  then have fresh: "nonces_fresh sample_env ?w" by (rule nonces_fresh_onMessage)
  have sock: "socket (this ?w) = Some 1" by (simp add: onMessage_this connected_def)
  have one: "length (sent (trace ?w)) = 1" by (simp add: run_defs)
  show ?thesis
    using nonces_pairwise_distinct [OF inj_sample_uuid fresh, of _ 1 SUBSCRIBE "JStr ''7''"]
      sock one
    by simp
qed

section \<open>The session object's own channel field\<close>

text \<open>
  C10. The field \<open>currentChannelId\<close> of the session object is null when \<open>init\<close> has run
  on a fresh session object, and nothing writes it afterwards: the whole handler, each of
  its dispatch blocks and the steps of the AUTHORIZE block on either side of its \<open>await\<close>
  leave the session object \<open>this\<close> as it is, in every world, so in whatever order the
  handlers of a session run. The current channel is told to the shared store instead, by
  \<open>setCurrentChannel\<close>: for every text frame that parses, the handler makes no such call
  unless the payload has \<open>cmd = GET_SELECTED_VOICE_CHANNEL\<close> or
  \<open>evt = VOICE_CHANNEL_SELECT\<close>; with the store attached and data carried, it calls
  \<open>setCurrentChannel(data.id)\<close> for the first and \<open>setCurrentChannel(data.channel_id)\<close>
  for the second (for a payload that is both, the two calls in this order), the second
  provided the exchange answers when the payload carries \<open>cmd = AUTHORIZE\<close> too.
\<close>

theorem currentChannelId_never_written:
  assumes parse: "JSON_parse E d = Some payload"
  shows "currentChannelId (this (snd (init E (startup ls)))) = JNull
       \<and> this (snd (onMessage E m w)) = this w
       \<and> (\<forall>s \<in> set (dispatch E payload). this (snd (s w)) = this w)
       \<and> this (emit e w) = this w
       \<and> this (setAccessToken ts t w) = this w
       \<and> this (login E token w) = this w
       \<and> (\<not> cmd_is payload GET_SELECTED_VOICE_CHANNEL \<and> \<not> evt_is payload VOICE_CHANNEL_SELECT \<longrightarrow>
            filter is_setCurrentChannel (store_calls (trace (snd (onMessage E (Text d) w)))) =
              filter is_setCurrentChannel (store_calls (trace w)))
       \<and> (cmd_is payload GET_SELECTED_VOICE_CHANNEL \<and> \<not> nullish (js_prop payload ''data'')
            \<and> store (this w) = Some st \<longrightarrow>
            filter is_setCurrentChannel (store_calls (trace (snd (onMessage E (Text d) w)))) =
              filter is_setCurrentChannel (store_calls (trace w)) @
              [setCurrentChannel (js_prop (js_prop payload ''data'') ''id'')] @
              (if evt_is payload VOICE_CHANNEL_SELECT
               then [setCurrentChannel (js_prop (js_prop payload ''data'') ''channel_id'')]
               else []))
       \<and> (evt_is payload VOICE_CHANNEL_SELECT \<and> \<not> nullish (js_prop payload ''data'')
            \<and> store (this w) = Some st
            \<and> (cmd_is payload AUTHORIZE \<longrightarrow>
                 (\<exists>res. fetch E \<lparr>url = STREAMKIT_URL @ ''/overlay/token'', http_method = ''POST'',
                                  body = JObj [(''code'', js_prop (js_prop payload ''data'') ''code'')]\<rparr>
                        = Inr res)) \<longrightarrow>
            filter is_setCurrentChannel (store_calls (trace (snd (onMessage E (Text d) w)))) =
              filter is_setCurrentChannel (store_calls (trace w)) @
              (if cmd_is payload GET_SELECTED_VOICE_CHANNEL
               then [setCurrentChannel (js_prop (js_prop payload ''data'') ''id'')] else []) @
              [setCurrentChannel (js_prop (js_prop payload ''data'') ''channel_id'')])"
proof -
  let ?SC = "\<lambda>w::world. filter is_setCurrentChannel (store_calls (trace w))"
  let ?id = "setCurrentChannel (js_prop (js_prop payload ''data'') ''id'')"
  let ?ch = "setCurrentChannel (js_prop (js_prop payload ''data'') ''channel_id'')"
  have init0: "currentChannelId (this (snd (init E (startup ls)))) = JNull"
    by (simp add: init_def startup_def SocketManager_new_def Let_def split: sum.splits)
  have blocks: "\<forall>s \<in> set (dispatch E payload). this (snd (s w)) = this w"
    by (auto simp: dispatch_def dispatch_this)
  have parts: "this (emit e w) = this w" "this (setAccessToken ts t w) = this w"
      "this (login E token w) = this w"
    by (simp_all add: login_def)
  have whole: "onMessage E (Text d) w = run (dispatch E payload) w" if "\<not> nullish payload"
    using parse that by (rule onMessage_Text)
  have N: "?SC (snd (onMessage E (Text d) w)) = ?SC w"
    if no: "\<not> cmd_is payload GET_SELECTED_VOICE_CHANNEL" "\<not> evt_is payload VOICE_CHANNEL_SELECT"
  proof (cases "nullish payload")
    case True
    then show ?thesis using parse by (simp add: onMessage_def)
  next
    case False
    have "?SC (snd (run (dispatch E payload) w)) = ?SC w"
      using no
      by (intro run_preserves [where f = ?SC])
        (auto simp: dispatch_def block_defs call_defs send_trace Let_def
              split: sum.splits option.splits)
    then show ?thesis using whole [OF False] by simp
  qed
  have P2: "?SC (snd (onMessage E (Text d) w)) =
      ?SC w @ (if cmd_is payload GET_SELECTED_VOICE_CHANNEL then [?id] else []) @ [?ch]"
    if evt: "evt_is payload VOICE_CHANNEL_SELECT"
      and data: "\<not> nullish (js_prop payload ''data'')"
      and st: "store (this w) = Some st"
      and exch: "cmd_is payload AUTHORIZE \<longrightarrow>
                 (\<exists>res. fetch E \<lparr>url = STREAMKIT_URL @ ''/overlay/token'', http_method = ''POST'',
                                  body = JObj [(''code'', js_prop (js_prop payload ''data'') ''code'')]\<rparr>
                        = Inr res)"
  proof -
    let ?sxs = "[(on_READY E payload, []),
                 (on_AUTHORIZE E payload, []),
                 (on_GET_SELECTED_VOICE_CHANNEL E payload,
                    if cmd_is payload GET_SELECTED_VOICE_CHANNEL then [?id] else []),
                 (on_AUTHENTICATE E payload, []),
                 (on_SPEAKING E payload, []),
                 (on_VOICE_STATE_DELETE E payload, []),
                 (on_VOICE_STATE_CREATE E payload, []),
                 (on_GET_CHANNEL E payload, []),
                 (on_VOICE_CHANNEL_SELECT E payload, [?ch])]"
    have nn: "\<not> nullish payload" using evt by (rule evt_is_not_nullish)
    have "?SC (snd (run (map fst ?sxs @ [on_other E payload]) w)) =
        ?SC w @ concat (map snd ?sxs)"
    proof (rule run_accumulate [where I = this and c = "this w" and g = ?SC])
      fix s :: step and x and w' :: world
      assume "(s, x) \<in> set ?sxs" and "this w' = this w"
      then show "fst (s w') = Done \<and> this (snd (s w')) = this w \<and>
          ?SC (snd (s w')) = ?SC w' @ x"
        using evt data st exch nn
        by (auto simp: block_defs call_defs send_trace Let_def js_get_def js_get_opt_def
              evt_is_def cmd_is_def split: option.splits)
    next
      fix s :: step and w' :: world
      assume "s \<in> set [on_other E payload]"
      then show "?SC (snd (s w')) = ?SC w'"
        by (auto simp: on_other_def)
    qed simp
    then show ?thesis
      by (simp add: whole [OF nn] dispatch_def del: run.simps)
  qed
  have P1: "?SC (snd (onMessage E (Text d) w)) =
      ?SC w @ [?id] @ (if evt_is payload VOICE_CHANNEL_SELECT then [?ch] else [])"
    if cmd: "cmd_is payload GET_SELECTED_VOICE_CHANNEL"
      and data: "\<not> nullish (js_prop payload ''data'')"
      and st: "store (this w) = Some st"
  proof (cases "evt_is payload VOICE_CHANNEL_SELECT")
    case True
    have "\<not> cmd_is payload AUTHORIZE" using cmd by (simp add: cmd_is_def)
    then show ?thesis using P2 [OF True data st] cmd True by simp
  next
    case False
    let ?sxs = "[(on_READY E payload, []),
                 (on_AUTHORIZE E payload, []),
                 (on_GET_SELECTED_VOICE_CHANNEL E payload, [?id])]"
    let ?post = "[on_AUTHENTICATE E payload, on_SPEAKING E payload,
                  on_VOICE_STATE_DELETE E payload, on_VOICE_STATE_CREATE E payload,
                  on_GET_CHANNEL E payload, on_VOICE_CHANNEL_SELECT E payload,
                  on_other E payload]"
    have nn: "\<not> nullish payload" using cmd by (rule cmd_is_not_nullish)
    have "?SC (snd (run (map fst ?sxs @ ?post) w)) = ?SC w @ concat (map snd ?sxs)"
    proof (rule run_accumulate [where I = this and c = "this w" and g = ?SC])
      fix s :: step and x and w' :: world
      assume "(s, x) \<in> set ?sxs" and "this w' = this w"
      then show "fst (s w') = Done \<and> this (snd (s w')) = this w \<and>
          ?SC (snd (s w')) = ?SC w' @ x"
        using cmd data st nn
        by (auto simp: block_defs call_defs send_trace Let_def js_get_def js_get_opt_def
              cmd_is_def split: option.splits)
    next
      fix s :: step and w' :: world
      assume "s \<in> set ?post"
      then show "?SC (snd (s w')) = ?SC w'"
        using cmd False
        by (auto simp: block_defs call_defs send_trace Let_def js_get_opt_def cmd_is_def
              split: sum.splits option.splits)
    qed simp
    then show ?thesis
      using False by (simp add: whole [OF nn] dispatch_def del: run.simps)
  qed
  show ?thesis
    using init0 blocks parts N P1 P2 by (simp add: onMessage_this)
qed

theorem currentChannelId_never_written_witness:
  "currentChannelId (this (snd (init sample_env (startup Map.empty)))) = JNull
   \<and> currentChannelId (this (snd (onMessage sample_env
        (Text ''{\"evt\":\"VOICE_CHANNEL_SELECT\",\"data\":{\"channel_id\":\"42\"}}'')
        (connected Map.empty)))) = JNull
   \<and> filter is_setCurrentChannel (store_calls (trace (snd (onMessage sample_env
        (Text ''{\"evt\":\"VOICE_CHANNEL_SELECT\",\"data\":{\"channel_id\":\"42\"}}'')
        (connected Map.empty))))) = [setCurrentChannel (JStr ''42'')]"
  using currentChannelId_never_written
    [where E = sample_env
       and d = "''{\"evt\":\"VOICE_CHANNEL_SELECT\",\"data\":{\"channel_id\":\"42\"}}''"
       and payload = "JObj [(''evt'', JStr ''VOICE_CHANNEL_SELECT''),
                            (''data'', JObj [(''channel_id'', JStr ''42'')])]"
       and ls = Map.empty
       and m = "Text ''{\"evt\":\"VOICE_CHANNEL_SELECT\",\"data\":{\"channel_id\":\"42\"}}''"
       and w = "connected Map.empty" and st = AppStore]
  by (simp add: sample_env_def sample_parse_def connected_def evt_is_def cmd_is_def)

end
